theory Spec2Isabelle
  imports Main
begin

section \<open>Strings as the services use them\<close>

text \<open>
  JavaScript strings are modelled as \<open>string\<close> (a list of characters). The three
  library operations the services rely on are written out: \<open>String.prototype.split\<close>
  at the newline character, \<open>Array.prototype.join\<close> with the newline character, and
  \<open>parseInt\<close> on a string of decimal digits (the only arguments the diff parser
  passes to it). Numbers are unbounded here; the loss of precision of a JavaScript
  number above \<open>2^53\<close> is not modelled.
\<close>

definition newline :: char where
  "newline = CHR 0x0A"

text \<open>
  \<open>s.split('\n')\<close>: never empty, the empty string gives one empty line. (The
  recursive call never returns the empty list; its case is there for totality.)
\<close>

fun split_lines :: "string \<Rightarrow> string list" where
  "split_lines [] = [[]]"
| "split_lines (c # cs) =
     (if c = newline then [] # split_lines cs
      else (case split_lines cs of [] \<Rightarrow> [[c]] | l # ls \<Rightarrow> (c # l) # ls))"

text \<open>\<open>xs.join('\n')\<close>.\<close>

fun join_lines :: "string list \<Rightarrow> string" where
  "join_lines [] = []"
| "join_lines [l] = l"
| "join_lines (l # m # ls) = l @ newline # join_lines (m # ls)"

text \<open>The character class \<open>\d\<close> of a JavaScript regular expression.\<close>

definition is_digit :: "char \<Rightarrow> bool" where
  "is_digit c = (c \<in> set ''0123456789'')"

definition digit_value :: "char \<Rightarrow> nat" where
  "digit_value c = of_char c - 48"

text \<open>\<open>parseInt\<close> on a string of decimal digits.\<close>

definition parseInt :: "string \<Rightarrow> nat" where
  "parseInt s = foldl (\<lambda>n c. 10 * n + digit_value c) 0 s"

section \<open>The diff parser (GitService.parseDiffHunks)\<close>

record DiffHunk =
  oldStart :: nat
  oldLines :: nat
  newStart :: nat
  newLines :: nat
  lines :: "string list"

text \<open>
  The hunk header pattern is
  \<^verbatim>\<open>/^@@ -(\d+),?(\d*) \+(\d+),?(\d*) @@/\<close>.
  It is matched once per line, anchored at the start of the line and open at its
  end. The scanner below follows the pattern from left to right. Each digit group is
  greedy and is always followed by a character that is not a digit, so the first
  alternative the backtracking matcher tries is the only one that can succeed, and
  the scanner returns the four captured groups of that alternative.
\<close>

fun strip_prefix :: "string \<Rightarrow> string \<Rightarrow> string option" where
  "strip_prefix [] s = Some s"
| "strip_prefix (p # ps) [] = None"
| "strip_prefix (p # ps) (c # cs) = (if p = c then strip_prefix ps cs else None)"

text \<open>The optional comma \<open>,?\<close>.\<close>

fun opt_comma :: "string \<Rightarrow> string" where
  "opt_comma [] = []"
| "opt_comma (c # cs) = (if c = CHR '','' then cs else c # cs)"

definition hunkMatch :: "string \<Rightarrow> (string \<times> string \<times> string \<times> string) option" where
  "hunkMatch line =
     (case strip_prefix ''@@ -'' line of
        None \<Rightarrow> None
      | Some s1 \<Rightarrow>
          let g1 = takeWhile is_digit s1; s2 = dropWhile is_digit s1 in
          if g1 = [] then None
          else
            let s3 = opt_comma s2;
                g2 = takeWhile is_digit s3; s4 = dropWhile is_digit s3 in
            (case strip_prefix '' +'' s4 of
               None \<Rightarrow> None
             | Some s5 \<Rightarrow>
                 let g3 = takeWhile is_digit s5; s6 = dropWhile is_digit s5 in
                 if g3 = [] then None
                 else
                   let s7 = opt_comma s6;
                       g4 = takeWhile is_digit s7; s8 = dropWhile is_digit s7 in
                   (case strip_prefix '' @@'' s8 of
                      None \<Rightarrow> None
                    | Some rest \<Rightarrow> Some (g1, g2, g3, g4))))"

text \<open>
  The hunk a header opens: \<open>parseInt(hunkMatch[2] || '1')\<close> reads an empty count
  group as \<open>'1'\<close>.
\<close>

definition newHunk :: "string \<times> string \<times> string \<times> string \<Rightarrow> DiffHunk" where
  "newHunk g =
     (case g of (g1, g2, g3, g4) \<Rightarrow>
        \<lparr> oldStart = parseInt g1,
          oldLines = parseInt (if g2 = [] then ''1'' else g2),
          newStart = parseInt g3,
          newLines = parseInt (if g4 = [] then ''1'' else g4),
          lines = [] \<rparr>)"

text \<open>
  The loop of \<open>parseDiffHunks\<close> over the lines, with its two variables: the hunks
  pushed so far and \<open>currentHunk\<close> (\<open>None\<close> for \<open>null\<close>).
\<close>

fun parseLoop :: "string list \<Rightarrow> DiffHunk list \<Rightarrow> DiffHunk option
    \<Rightarrow> DiffHunk list \<times> DiffHunk option" where
  "parseLoop [] hunks currentHunk = (hunks, currentHunk)"
| "parseLoop (l # ls) hunks currentHunk =
     (case hunkMatch l of
        Some g \<Rightarrow>
          parseLoop ls
            (case currentHunk of Some h \<Rightarrow> hunks @ [h] | None \<Rightarrow> hunks)
            (Some (newHunk g))
      | None \<Rightarrow>
          (case currentHunk of
             Some h \<Rightarrow> parseLoop ls hunks (Some (h\<lparr>lines := lines h @ [l]\<rparr>))
           | None \<Rightarrow> parseLoop ls hunks None))"

definition parseDiffHunks :: "string \<Rightarrow> DiffHunk list" where
  "parseDiffHunks diffText =
     (case parseLoop (split_lines diffText) [] None of
        (hunks, Some h) \<Rightarrow> hunks @ [h]
      | (hunks, None) \<Rightarrow> hunks)"

text \<open>
  The parser as the specification words it: every header line opens a hunk that
  holds the lines up to the next header, and a line before the first header belongs
  to no hunk.
\<close>

definition isHeader :: "string \<Rightarrow> bool" where
  "isHeader l = (hunkMatch l \<noteq> None)"

fun hunksBySpec :: "string list \<Rightarrow> DiffHunk list" where
  "hunksBySpec [] = []"
| "hunksBySpec (l # ls) =
     (case hunkMatch l of
        Some g \<Rightarrow> (newHunk g)\<lparr>lines := takeWhile (\<lambda>x. \<not> isHeader x) ls\<rparr> # hunksBySpec ls
      | None \<Rightarrow> hunksBySpec ls)"

section \<open>The VCS collaborator (GitService.getDiff)\<close>

text \<open>
  A failing collaborator call is a thrown \<open>Error\<close>: a result is \<open>Inl message\<close>
  for the error and \<open>Inr value\<close> for a normal return. The two calls into simple-git
  are parameters of the model: \<open>diffSummary\<close> (the files with their binary flag
  and the totals of the whole comparison) and \<open>diff\<close> for one file.
\<close>

datatype diff_status = added | modified | deleted | renamed

record FileDiff =
  path :: string
  oldPath :: "string option"
  status :: diff_status
  hunks :: "DiffHunk list"

record DiffFile =
  fileName :: string
  binary :: bool

record DiffSummary =
  files :: "DiffFile list"
  insertions :: int
  deletions :: int

text \<open>
  The body of the loop over \<open>diffSummary.files\<close>. The raw diff of a file is fetched
  and parsed before the binary flag is looked at, so a failing \<open>git.diff\<close> ends the
  whole call for a binary file as well.
\<close>

fun diffLoop :: "(string \<Rightarrow> string + string) \<Rightarrow> DiffSummary \<Rightarrow> DiffFile list
    \<Rightarrow> FileDiff list \<Rightarrow> string + FileDiff list" where
  "diffLoop gitDiff diffSummary [] diffs = Inr diffs"
| "diffLoop gitDiff diffSummary (f # fs) diffs =
     (case gitDiff (fileName f) of
        Inl e \<Rightarrow> Inl e
      | Inr rawDiff \<Rightarrow>
          let hs = parseDiffHunks rawDiff in
          if binary f then diffLoop gitDiff diffSummary fs diffs
          else
            let st =
              (if insertions diffSummary > 0 \<and> deletions diffSummary = 0 then added
               else if deletions diffSummary > 0 \<and> insertions diffSummary = 0 then deleted
               else modified)
            in diffLoop gitDiff diffSummary fs
                 (diffs @ [\<lparr> path = fileName f, oldPath = None, status = st, hunks = hs \<rparr>]))"

definition getDiff :: "(string + DiffSummary) \<Rightarrow> (string \<Rightarrow> string + string)
    \<Rightarrow> string + FileDiff list" where
  "getDiff gitDiffSummary gitDiff =
     (case gitDiffSummary of
        Inl e \<Rightarrow> Inl e
      | Inr diffSummary \<Rightarrow> diffLoop gitDiff diffSummary (files diffSummary) [])"

section \<open>The filesystem collaborator (FileSystemService)\<close>

text \<open>
  The file system is a function from a full path to the text of the file, or to the
  text of the error that \<open>access\<close> or \<open>readFile\<close> of \<open>fs/promises\<close> throws.
  \<open>path.join\<close> is modelled without its normalisation of \<open>.\<close>, \<open>..\<close> and
  doubled separators.
\<close>

type_synonym filesystem = "string \<Rightarrow> string + string"

definition join_path :: "string \<Rightarrow> string \<Rightarrow> string" where
  "join_path a b = a @ ''/'' @ b"

text \<open>
  The text whose lines are \<open>xs\<close>, written with the list functions of the
  library only: the yardstick for what \<open>readFile\<close> returns.
\<close>

abbreviation linesText :: "string list \<Rightarrow> string" where
  "linesText xs \<equiv> (case xs of [] \<Rightarrow> [] | x # r \<Rightarrow> x @ concat (map ((#) (CHR 0x0A)) r))"

text \<open>
  \<open>Array.prototype.slice(start, end)\<close> on integers: a negative index counts from
  the end, and both indices are clamped to the array.
\<close>

definition slice :: "'a list \<Rightarrow> int \<Rightarrow> int \<Rightarrow> 'a list" where
  "slice xs start fin =
     (let len = int (length xs);
          k = (if start < 0 then max (len + start) 0 else min start len);
          final = (if fin < 0 then max (len + fin) 0 else min fin len)
      in take (nat (final - k)) (drop (nat k) xs))"

text \<open>
  \<open>readFile(path, startLine, endLine)\<close>. An absent argument is \<open>None\<close>;
  \<open>startLine || 1\<close> and \<open>endLine || lines.length\<close> replace an absent bound and
  the bound \<open>0\<close>.
\<close>

definition readFile :: "string \<Rightarrow> filesystem \<Rightarrow> string \<Rightarrow> int option \<Rightarrow> int option
    \<Rightarrow> string + string" where
  "readFile repoPath fs p startLine endLine =
     (case fs (join_path repoPath p) of
        Inl e \<Rightarrow> Inl (''Failed to read file '' @ p @ '': '' @ e)
      | Inr body \<Rightarrow>
          if startLine \<noteq> None \<or> endLine \<noteq> None then
            let ls = split_lines body;
                start = (case startLine of None \<Rightarrow> 1 | Some s \<Rightarrow> if s = 0 then 1 else s) - 1;
                fin = (case endLine of None \<Rightarrow> int (length ls)
                       | Some e \<Rightarrow> if e = 0 then int (length ls) else e)
            in Inr (join_lines (slice ls start fin))
          else Inr body)"

text \<open>
  \<open>String.prototype.trim\<close> over the ASCII white space and line terminators (tab,
  line feed, vertical tab, form feed, carriage return, space); the white space
  beyond ASCII is not modelled.
\<close>

definition is_space :: "char \<Rightarrow> bool" where
  "is_space c = (c \<in> set [CHR 0x09, CHR 0x0A, CHR 0x0B, CHR 0x0C, CHR 0x0D, CHR 0x20])"

definition trim :: "string \<Rightarrow> string" where
  "trim s = rev (dropWhile is_space (rev (dropWhile is_space s)))"

text \<open>
  The regular expression engine is a parameter. A compiled pattern is a matcher:
  \<open>m s i\<close> is the end index of the leftmost match of the pattern in \<open>s\<close> that
  starts at an index from \<open>i\<close> on, and \<open>None\<close> when there is none.
  \<open>new RegExp(pattern, 'gi')\<close> is \<open>compile pattern\<close>, which fails on a pattern
  that is not a regular expression.

  \<open>regex.test(s)\<close> on an expression with the \<open>g\<close> flag reads and writes the
  \<open>lastIndex\<close> property of the expression object (ECMAScript, RegExpBuiltinExec):
  the search starts at \<open>lastIndex\<close>; a match stores its end index there; a failed
  search, or a \<open>lastIndex\<close> beyond the string, stores \<open>0\<close>.
\<close>

type_synonym matcher = "string \<Rightarrow> nat \<Rightarrow> nat option"

definition regex_test :: "matcher \<Rightarrow> string \<Rightarrow> nat \<Rightarrow> bool \<times> nat" where
  "regex_test m s lastIndex =
     (if lastIndex > length s then (False, 0)
      else (case m s lastIndex of None \<Rightarrow> (False, 0) | Some e \<Rightarrow> (True, e)))"

text \<open>An entry of the result, \<open>{file, line, content}\<close>; \<open>file_path\<close> is its \<open>file\<close>.\<close>

record SearchMatch =
  file_path :: string
  line :: nat
  content :: string

text \<open>
  \<open>lines.forEach((line, index) => ...)\<close> for one file. The state is the result
  array and the \<open>lastIndex\<close> of the one expression object that \<open>search\<close> creates
  before its loop over the files.
\<close>

fun searchLines :: "matcher \<Rightarrow> string \<Rightarrow> string list \<Rightarrow> nat
    \<Rightarrow> SearchMatch list \<times> nat \<Rightarrow> SearchMatch list \<times> nat" where
  "searchLines m f [] index st = st"
| "searchLines m f (l # ls) index st =
     (case regex_test m l (snd st) of
        (True, lastIndex) \<Rightarrow>
          searchLines m f ls (index + 1)
            (fst st @ [\<lparr> file_path = f, line = index + 1, content = trim l \<rparr>], lastIndex)
      | (False, lastIndex) \<Rightarrow> searchLines m f ls (index + 1) (fst st, lastIndex))"

text \<open>
  The loop over the files that \<open>glob\<close> returned. Each file is read with
  \<open>this.readFile(file)\<close>, that is, relative to the repository path; a file that
  cannot be read is skipped.
\<close>

fun searchFiles :: "matcher \<Rightarrow> string \<Rightarrow> filesystem \<Rightarrow> string list
    \<Rightarrow> SearchMatch list \<times> nat \<Rightarrow> SearchMatch list \<times> nat" where
  "searchFiles m repoPath fs [] st = st"
| "searchFiles m repoPath fs (f # rest) st =
     (case readFile repoPath fs f None None of
        Inl e \<Rightarrow> searchFiles m repoPath fs rest st
      | Inr body \<Rightarrow>
          searchFiles m repoPath fs rest (searchLines m f (split_lines body) 0 st))"

text \<open>
  \<open>search(pattern, searchPath, filePattern)\<close>. \<open>glob pattern cwd\<close> is the
  collaborator that lists the files under \<open>cwd\<close> that match the pattern.
\<close>

definition search :: "(string \<Rightarrow> string + matcher) \<Rightarrow> (string \<Rightarrow> string \<Rightarrow> string + string list)
    \<Rightarrow> string \<Rightarrow> filesystem \<Rightarrow> string \<Rightarrow> string option \<Rightarrow> string option
    \<Rightarrow> string + SearchMatch list" where
  "search compile glob repoPath fs pattern searchPath filePattern =
     (let globPattern = (case filePattern of None \<Rightarrow> ''**/*''
                         | Some g \<Rightarrow> if g = [] then ''**/*'' else g);
          basePath = (case searchPath of None \<Rightarrow> repoPath
                      | Some sp \<Rightarrow> if sp = [] then repoPath else join_path repoPath sp)
      in case glob globPattern basePath of
           Inl e \<Rightarrow> Inl e
         | Inr fileList \<Rightarrow>
             (case compile pattern of
                Inl e \<Rightarrow> Inl e
              | Inr m \<Rightarrow> Inr (fst (searchFiles m repoPath fs fileList ([], 0)))))"

text \<open>
  The result the specification describes: for every file that can be read, one
  entry for every line that the pattern matches.
\<close>

definition matchesBySpec :: "matcher \<Rightarrow> string \<Rightarrow> string list \<Rightarrow> SearchMatch list" where
  "matchesBySpec m f ls =
     map (\<lambda>(i, l). \<lparr> file_path = f, line = i + 1, content = trim l \<rparr>)
       (filter (\<lambda>(i, l). m l 0 \<noteq> None) (zip [0 ..< length ls] ls))"

text \<open>
  An engine for patterns without metacharacters, with the \<open>i\<close> flag: the pattern
  matches where its characters stand in the line, letter case apart.
\<close>

definition lower :: "char \<Rightarrow> char" where
  "lower c = (if c \<in> set ''ABCDEFGHIJKLMNOPQRSTUVWXYZ''
              then char_of (of_char c + (32 :: nat)) else c)"

fun prefix_ci :: "string \<Rightarrow> string \<Rightarrow> bool" where
  "prefix_ci [] s = True"
| "prefix_ci (p # ps) [] = False"
| "prefix_ci (p # ps) (c # cs) = (lower p = lower c \<and> prefix_ci ps cs)"

fun scan_literal :: "string \<Rightarrow> string \<Rightarrow> nat \<Rightarrow> nat option" where
  "scan_literal pat [] j = (if pat = [] then Some j else None)"
| "scan_literal pat (c # cs) j =
     (if prefix_ci pat (c # cs) then Some (j + length pat) else scan_literal pat cs (j + 1))"

definition literal_matcher :: "string \<Rightarrow> matcher" where
  "literal_matcher pat s i = scan_literal pat (drop i s) i"

section \<open>The process: timers, socket and exit (the agent's main function)\<close>

text \<open>
  The state that the callbacks of \<open>main\<close> and the socket service share. A timer
  field is true while its timer is pending. \<open>socket\<close> is true while the service
  holds a socket (\<open>this.socket\<close> is not \<open>null\<close>). \<open>responses\<close> are the
  \<open>agent:response\<close> messages emitted so far, \<open>errors\<close> the messages that
  \<open>exitWithError\<close> printed with \<open>console.error\<close>, and \<open>exitCode\<close> is the
  argument of \<open>process.exit\<close> once it has been called. \<open>process.exit\<close> does not
  return: a process that has an exit code runs no further statement and takes no
  further event.
\<close>

datatype exit_message =
    ConnectionTimeout
  | IdleTimeout
  | ReviewTimeout
  | CriticalError string
  | AgentFailed string
  | FatalError string

record 'd AgentResponse =
  commandId :: string
  success :: bool
  data :: "'d option"
  error :: "string option"

record 'd world =
  FAIL_SAFE :: bool
  connectTimeout :: bool
  idleTimeout :: bool
  reviewTimeout :: bool
  reviewCompleted :: bool
  callbacksSet :: bool
  bitbucketService :: bool
  pendingBitbucketPublish :: bool
  awaitingPublish :: bool
  socket :: bool
  responses :: "'d AgentResponse list"
  errors :: "exit_message list"
  exitCode :: "int option"

definition process_exit :: "int \<Rightarrow> 'd world \<Rightarrow> 'd world" where
  "process_exit code w = (if exitCode w = None then w\<lparr>exitCode := Some code\<rparr> else w)"

definition exitWithError :: "exit_message \<Rightarrow> 'd world \<Rightarrow> 'd world" where
  "exitWithError message w =
     (let w1 = w\<lparr>errors := errors w @ [message]\<rparr>
      in if FAIL_SAFE w1 then process_exit 0 w1 else process_exit 1 w1)"

text \<open>\<open>WebSocketService.disconnect\<close>.\<close>

definition disconnect :: "'d world \<Rightarrow> 'd world" where
  "disconnect w = (if socket w then w\<lparr>socket := False\<rparr> else w)"

definition resetIdleTimeout :: "'d world \<Rightarrow> 'd world" where
  "resetIdleTimeout w = (w\<lparr>idleTimeout := False\<rparr>)\<lparr>idleTimeout := True\<rparr>"

text \<open>The callback of the connect timer.\<close>

definition connectTimeoutFires :: "'d world \<Rightarrow> 'd world" where
  "connectTimeoutFires w = exitWithError ConnectionTimeout (w\<lparr>connectTimeout := False\<rparr>)"

text \<open>
  \<open>await wsService.connect()\<close> returns: the connect timer is cleared, the idle and
  the review timer are started and the callbacks are set.
\<close>

definition connectResolved :: "'d world \<Rightarrow> 'd world" where
  "connectResolved w =
     (resetIdleTimeout (w\<lparr>connectTimeout := False\<rparr>))\<lparr>reviewTimeout := True, callbacksSet := True\<rparr>"

text \<open>\<open>await wsService.connect()\<close> throws: the \<open>catch\<close> of \<open>main\<close>.\<close>

definition connectRejected :: "string \<Rightarrow> 'd world \<Rightarrow> 'd world" where
  "connectRejected message w = exitWithError (AgentFailed message) w"

text \<open>
  \<open>main().catch(...)\<close>: \<open>main\<close> itself rejects (an error outside its \<open>try\<close>).
  The handler repeats the body of \<open>exitWithError\<close>.
\<close>

definition mainRejected :: "string \<Rightarrow> 'd world \<Rightarrow> 'd world" where
  "mainRejected message w =
     (let w1 = w\<lparr>errors := errors w @ [FatalError message]\<rparr>
      in if FAIL_SAFE w1 then process_exit 0 w1 else process_exit 1 w1)"

text \<open>The callback of the idle timer, set in \<open>resetIdleTimeout\<close>.\<close>

definition idleTimeoutFires :: "'d world \<Rightarrow> 'd world" where
  "idleTimeoutFires w = exitWithError IdleTimeout (disconnect (w\<lparr>idleTimeout := False\<rparr>))"

text \<open>The callback of the review timer.\<close>

definition reviewTimeoutFires :: "'d world \<Rightarrow> 'd world" where
  "reviewTimeoutFires w =
     (let w1 = w\<lparr>reviewTimeout := False\<rparr>
      in if \<not> reviewCompleted w1
         then exitWithError ReviewTimeout (disconnect (w1\<lparr>idleTimeout := False\<rparr>))
         else w1)"

text \<open>The callback given to \<open>wsService.onCriticalError\<close>.\<close>

definition onCriticalError :: "string \<Rightarrow> 'd world \<Rightarrow> 'd world" where
  "onCriticalError message w =
     exitWithError (CriticalError message)
       (disconnect (w\<lparr>reviewTimeout := False, idleTimeout := False\<rparr>))"

text \<open>
  The callback given to \<open>wsService.onFindings\<close>, as far as the process state
  goes: with the Code Insights service present a publication is started and its
  promise kept. (Writing the JUnit report changes nothing here; its errors are
  caught.)
\<close>

definition onFindings :: "'d world \<Rightarrow> 'd world" where
  "onFindings w = (if bitbucketService w then w\<lparr>pendingBitbucketPublish := True\<rparr> else w)"

text \<open>
  The callback given to \<open>wsService.onReviewComplete\<close>, in two parts: up to the
  \<open>await\<close> of the pending publication (bounded by thirty seconds), and after it.
  Without a pending publication both parts run at once.
\<close>

definition reviewCompleteDone :: "'d world \<Rightarrow> 'd world" where
  "reviewCompleteDone w = process_exit 0 (disconnect (w\<lparr>awaitingPublish := False\<rparr>))"

definition onReviewComplete :: "'d world \<Rightarrow> 'd world" where
  "onReviewComplete w =
     (let w1 = w\<lparr>reviewCompleted := True, reviewTimeout := False, idleTimeout := False\<rparr>
      in if pendingBitbucketPublish w1 then w1\<lparr>awaitingPublish := True\<rparr>
         else reviewCompleteDone w1)"

text \<open>The handlers of \<open>SIGINT\<close> and \<open>SIGTERM\<close>.\<close>

definition onSignal :: "'d world \<Rightarrow> 'd world" where
  "onSignal w = process_exit 0 (disconnect (w\<lparr>reviewTimeout := False, idleTimeout := False\<rparr>))"

text \<open>
  The events of a run. A timer fires only while it is pending, a callback of the
  socket service runs only once \<open>main\<close> has set it, and a process that has exited
  takes no event.
\<close>

datatype event =
    ConnectTimeoutFires
  | ConnectResolved
  | ConnectRejected string
  | Activity
  | IdleTimeoutFires
  | ReviewTimeoutFires
  | CriticalErrorSignal string
  | FindingsReceived
  | ReviewComplete
  | PublishWaitOver
  | Signal

fun enabled :: "event \<Rightarrow> 'd world \<Rightarrow> bool" where
  "enabled ConnectTimeoutFires w = (exitCode w = None \<and> connectTimeout w)"
| "enabled ConnectResolved w = (exitCode w = None \<and> \<not> callbacksSet w)"
| "enabled (ConnectRejected m) w = (exitCode w = None \<and> \<not> callbacksSet w)"
| "enabled Activity w = (exitCode w = None \<and> callbacksSet w)"
| "enabled IdleTimeoutFires w = (exitCode w = None \<and> idleTimeout w)"
| "enabled ReviewTimeoutFires w = (exitCode w = None \<and> reviewTimeout w)"
| "enabled (CriticalErrorSignal m) w = (exitCode w = None \<and> callbacksSet w)"
| "enabled FindingsReceived w = (exitCode w = None \<and> callbacksSet w)"
| "enabled ReviewComplete w = (exitCode w = None \<and> callbacksSet w)"
| "enabled PublishWaitOver w = (exitCode w = None \<and> awaitingPublish w)"
| "enabled Signal w = (exitCode w = None \<and> callbacksSet w)"

fun handler :: "event \<Rightarrow> 'd world \<Rightarrow> 'd world" where
  "handler ConnectTimeoutFires w = connectTimeoutFires w"
| "handler ConnectResolved w = connectResolved w"
| "handler (ConnectRejected m) w = connectRejected m w"
| "handler Activity w = resetIdleTimeout w"
| "handler IdleTimeoutFires w = idleTimeoutFires w"
| "handler ReviewTimeoutFires w = reviewTimeoutFires w"
| "handler (CriticalErrorSignal m) w = onCriticalError m w"
| "handler FindingsReceived w = onFindings w"
| "handler ReviewComplete w = onReviewComplete w"
| "handler PublishWaitOver w = reviewCompleteDone w"
| "handler Signal w = onSignal w"

definition step :: "event \<Rightarrow> 'd world \<Rightarrow> 'd world" where
  "step e w = (if enabled e w then handler e w else w)"

fun run :: "event list \<Rightarrow> 'd world \<Rightarrow> 'd world" where
  "run [] w = w"
| "run (e # es) w = run es (step e w)"

text \<open>
  The state of \<open>main\<close> when it awaits \<open>wsService.connect()\<close>: the connect timer
  is pending and the socket exists.
\<close>

definition initial :: "bool \<Rightarrow> bool \<Rightarrow> 'd world" where
  "initial failSafe integration =
     \<lparr> FAIL_SAFE = failSafe, connectTimeout = True, idleTimeout = False,
       reviewTimeout = False, reviewCompleted = False, callbacksSet = False,
       bitbucketService = integration, pendingBitbucketPublish = False,
       awaitingPublish = False, socket = True, responses = [], errors = [],
       exitCode = None \<rparr>"

text \<open>No timer is pending.\<close>

definition timersCleared :: "'d world \<Rightarrow> bool" where
  "timersCleared w = (\<not> connectTimeout w \<and> \<not> idleTimeout w \<and> \<not> reviewTimeout w)"

section \<open>The command dispatcher (WebSocketService.handleCommand)\<close>

record 'p AgentCommand =
  commandId :: string
  type :: string
  params :: 'p

text \<open>
  The five private handlers, each with the outcome of its collaborator call:
  \<open>Inl message\<close> when it throws an \<open>Error\<close> with that message, \<open>Inr data\<close>
  when it returns.
\<close>

record ('p, 'd) handlers =
  handleReadFile :: "'p \<Rightarrow> string + 'd"
  handleGetDiff :: "string + 'd"
  handleSearch :: "'p \<Rightarrow> string + 'd"
  handleListFiles :: "'p \<Rightarrow> string + 'd"
  handleGetDependencies :: "string + 'd"

definition criticalCommands :: "string list" where
  "criticalCommands = [''get_diff'']"

text \<open>The \<open>switch\<close> on \<open>command.type\<close> inside the \<open>try\<close>.\<close>

definition runHandler :: "('p, 'd) handlers \<Rightarrow> 'p AgentCommand \<Rightarrow> string + 'd" where
  "runHandler hs command =
     (if type command = ''read_file'' then handleReadFile hs (params command)
      else if type command = ''get_diff'' then handleGetDiff hs
      else if type command = ''search'' then handleSearch hs (params command)
      else if type command = ''list_files'' then handleListFiles hs (params command)
      else if type command = ''get_dependencies'' then handleGetDependencies hs
      else Inl (''Unknown command type: '' @ type command))"

text \<open>The value of \<open>response\<close> after the \<open>try\<close> and after the \<open>catch\<close>.\<close>

definition buildResponse :: "'p AgentCommand \<Rightarrow> string + 'd \<Rightarrow> 'd AgentResponse" where
  "buildResponse command outcome =
     (case outcome of
        Inr d \<Rightarrow>
          \<lparr> AgentResponse.commandId = AgentCommand.commandId command, success = True,
            data = Some d, error = None \<rparr>
      | Inl message \<Rightarrow>
          \<lparr> AgentResponse.commandId = AgentCommand.commandId command, success = False,
            data = None, error = Some message \<rparr>)"

text \<open>
  The escalation inside the \<open>catch\<close>: for a critical command the callback, when
  one is set, is called with the message before the response is emitted.
\<close>

definition criticalMessage :: "string \<Rightarrow> string \<Rightarrow> string" where
  "criticalMessage ty message =
     ''Critical command '' @ [CHR 0x27] @ ty @ [CHR 0x27] @ '' failed: '' @ message"

definition escalate :: "(string \<Rightarrow> 'd world \<Rightarrow> 'd world) option \<Rightarrow> 'p AgentCommand
    \<Rightarrow> string + 'd \<Rightarrow> 'd world \<Rightarrow> 'd world" where
  "escalate criticalErrorCallback command outcome w =
     (case outcome of
        Inr d \<Rightarrow> w
      | Inl message \<Rightarrow>
          if type command \<in> set criticalCommands then
            (case criticalErrorCallback of
               Some callback \<Rightarrow> callback (criticalMessage (type command) message) w
             | None \<Rightarrow> w)
          else w)"

text \<open>
  \<open>this.socket?.emit('agent:response', response)\<close>: nothing is emitted without a
  socket, and the line is not reached in a process that has exited.
\<close>

definition emitResponse :: "'d AgentResponse \<Rightarrow> 'd world \<Rightarrow> 'd world" where
  "emitResponse response w =
     (if exitCode w = None \<and> socket w then w\<lparr>responses := responses w @ [response]\<rparr>
      else w)"

text \<open>
  \<open>handleCommand\<close>, from the moment the awaited handler settles: \<open>w\<close> is the
  state at that moment. The console output, also that of the debug mode between
  the \<open>catch\<close> and the emission, is left out.
\<close>

definition handleCommand :: "(string \<Rightarrow> 'd world \<Rightarrow> 'd world) option \<Rightarrow> ('p, 'd) handlers
    \<Rightarrow> 'p AgentCommand \<Rightarrow> 'd world \<Rightarrow> 'd world" where
  "handleCommand criticalErrorCallback hs command w =
     (let outcome = runHandler hs command;
          response = buildResponse command outcome;
          w1 = escalate criticalErrorCallback command outcome w
      in emitResponse response w1)"

section \<open>Properties of the diff parser\<close>

lemma split_lines_single: "newline \<notin> set s \<Longrightarrow> split_lines s = [s]"
  by (induction s) auto

lemma split_lines_append:
  "newline \<notin> set l \<Longrightarrow> split_lines (l @ newline # s) = l # split_lines s"
  by (induction l) auto

lemma split_join:
  "ls \<noteq> [] \<Longrightarrow> \<forall>l \<in> set ls. newline \<notin> set l \<Longrightarrow> split_lines (join_lines ls) = ls"
  by (induction ls rule: join_lines.induct) (auto simp: split_lines_single split_lines_append)

lemma isHeader_Some: "hunkMatch l = Some g \<Longrightarrow> isHeader l"
  by (simp add: isHeader_def)

lemma isHeader_None: "hunkMatch l = None \<Longrightarrow> \<not> isHeader l"
  by (simp add: isHeader_def)

lemma lines_newHunk: "lines (newHunk g) = []"
  by (cases g) (simp add: newHunk_def)

text \<open>
  The loop invariant: what the loop returns, once the open hunk is flushed, is the
  hunks pushed before, the open hunk extended by the lines up to the next header,
  and the hunks of the remaining lines.
\<close>

lemma parseLoop_hunksBySpec:
  "(case parseLoop ls hs cur of (done, Some h) \<Rightarrow> done @ [h] | (done, None) \<Rightarrow> done) =
     hs @ (case cur of None \<Rightarrow> []
           | Some h \<Rightarrow> [h\<lparr>lines := lines h @ takeWhile (\<lambda>x. \<not> isHeader x) ls\<rparr>]) @ hunksBySpec ls"
proof (induction ls arbitrary: hs cur)
  case Nil
  then show ?case by (simp split: option.splits)
next
  case (Cons l ls)
  show ?case
  proof (cases "hunkMatch l")
    case None
    then show ?thesis using Cons.IH isHeader_None [OF None] by (simp split: option.splits)
  next
    case (Some g)
    then show ?thesis using Cons.IH isHeader_Some [OF Some]
      by (simp add: lines_newHunk split: option.splits)
  qed
qed

lemma parseDiffHunks_hunksBySpec: "parseDiffHunks t = hunksBySpec (split_lines t)"
  using parseLoop_hunksBySpec [of "split_lines t" "[]" None]
  by (simp add: parseDiffHunks_def)

lemma length_hunksBySpec: "length (hunksBySpec ls) = length (filter isHeader ls)"
proof (induction ls)
  case Nil
  show ?case by simp
next
  case (Cons l ls)
  then show ?case
    by (cases "hunkMatch l") (simp_all add: isHeader_Some isHeader_None)
qed

lemma headers_hunksBySpec:
  "map (\<lambda>h. h\<lparr>lines := []\<rparr>) (hunksBySpec ls) =
     map (\<lambda>l. newHunk (the (hunkMatch l))) (filter isHeader ls)"
proof (induction ls)
  case Nil
  show ?case by simp
next
  case (Cons l ls)
  then show ?case
    by (cases "hunkMatch l") (simp_all add: isHeader_Some isHeader_None lines_newHunk)
qed

lemma filter_takeWhile_dropWhile:
  "filter P xs = takeWhile P xs @ filter P (dropWhile P xs)"
  by (induction xs) auto

lemma concat_lines_hunksBySpec:
  "concat (map lines (hunksBySpec ls)) =
     filter (\<lambda>l. \<not> isHeader l) (dropWhile (\<lambda>l. \<not> isHeader l) ls)"
proof (induction ls)
  case Nil
  show ?case by simp
next
  case (Cons l rest)
  show ?case
  proof (cases "hunkMatch l")
    case None
    then show ?thesis using Cons.IH isHeader_None [OF None] by simp
  next
    case (Some g)
    have hl: "isHeader l" by (rule isHeader_Some [OF Some])
    have "concat (map lines (hunksBySpec (l # rest))) =
        takeWhile (\<lambda>x. \<not> isHeader x) rest @ concat (map lines (hunksBySpec rest))"
      using Some by simp
    also have "\<dots> = filter (\<lambda>l. \<not> isHeader l) rest"
      using Cons.IH filter_takeWhile_dropWhile [of "\<lambda>l. \<not> isHeader l" rest] by simp
    also have "\<dots> =
        filter (\<lambda>l. \<not> isHeader l) (dropWhile (\<lambda>l. \<not> isHeader l) (l # rest))"
      using hl by simp
    finally show ?thesis .
  qed
qed

text \<open>
  Claim C2. For every diff text, \<open>parseDiffHunks\<close> returns one hunk per line that
  matches the header pattern, in the order of the headers and with the fields of
  each header; a text without a header gives no hunk; the lines before the first
  header are dropped, and every other line that is not a header is kept as it is,
  in the hunk of the last header before it (the hunk of a header holds the lines
  up to the next header).
\<close>

theorem parseDiffHunks_one_hunk_per_header:
  "parseDiffHunks diffText = hunksBySpec (split_lines diffText)
   \<and> length (parseDiffHunks diffText) = length (filter isHeader (split_lines diffText))
   \<and> map (\<lambda>h. h\<lparr>lines := []\<rparr>) (parseDiffHunks diffText) =
       map (\<lambda>l. newHunk (the (hunkMatch l))) (filter isHeader (split_lines diffText))
   \<and> (filter isHeader (split_lines diffText) = [] \<longrightarrow> parseDiffHunks diffText = [])
   \<and> concat (map lines (parseDiffHunks diffText)) =
       filter (\<lambda>l. \<not> isHeader l) (dropWhile (\<lambda>l. \<not> isHeader l) (split_lines diffText))"
proof -
  have n: "length (parseDiffHunks diffText) = length (filter isHeader (split_lines diffText))"
    by (simp add: parseDiffHunks_hunksBySpec length_hunksBySpec)
  have z: "filter isHeader (split_lines diffText) = [] \<longrightarrow> parseDiffHunks diffText = []"
  proof
    assume "filter isHeader (split_lines diffText) = []"
    then have "length (parseDiffHunks diffText) = 0" using n by simp
    then show "parseDiffHunks diffText = []" by simp
  qed
  have r: "parseDiffHunks diffText = hunksBySpec (split_lines diffText)"
    by (rule parseDiffHunks_hunksBySpec)
  have m: "map (\<lambda>h. h\<lparr>lines := []\<rparr>) (parseDiffHunks diffText) =
       map (\<lambda>l. newHunk (the (hunkMatch l))) (filter isHeader (split_lines diffText))"
    unfolding r by (rule headers_hunksBySpec)
  have c: "concat (map lines (parseDiffHunks diffText)) =
       filter (\<lambda>l. \<not> isHeader l) (dropWhile (\<lambda>l. \<not> isHeader l) (split_lines diffText))"
    unfolding r by (rule concat_lines_hunksBySpec)
  show ?thesis using r n m z c by blast
qed

theorem parseDiffHunks_one_hunk_per_header_witness:
  "parseDiffHunks (join_lines [''--- a/x'', ''+++ b/x'', ''@@ -1,2 +1,3 @@'', '' a'', ''+b'',
       ''@@ -10 +11 @@ f'', ''-c'']) =
     [\<lparr>oldStart = 1, oldLines = 2, newStart = 1, newLines = 3, lines = ['' a'', ''+b'']\<rparr>,
      \<lparr>oldStart = 10, oldLines = 1, newStart = 11, newLines = 1, lines = [''-c'']\<rparr>]
   \<and> length (filter isHeader (split_lines (join_lines [''--- a/x'', ''+++ b/x'',
       ''@@ -1,2 +1,3 @@'', '' a'', ''+b'', ''@@ -10 +11 @@ f'', ''-c'']))) = 2
   \<and> filter isHeader (split_lines (join_lines [''--- a/x'', ''+++ b/x''])) = []
   \<and> parseDiffHunks (join_lines [''--- a/x'', ''+++ b/x'']) = []"
proof -
  let ?t = "join_lines [''--- a/x'', ''+++ b/x'', ''@@ -1,2 +1,3 @@'', '' a'', ''+b'',
       ''@@ -10 +11 @@ f'', ''-c'']"
  let ?u = "join_lines [''--- a/x'', ''+++ b/x'']"
  have a: "hunksBySpec (split_lines ?t) =
     [\<lparr>oldStart = 1, oldLines = 2, newStart = 1, newLines = 3, lines = ['' a'', ''+b'']\<rparr>,
      \<lparr>oldStart = 10, oldLines = 1, newStart = 11, newLines = 1, lines = [''-c'']\<rparr>]"
    by code_simp
  have b: "filter isHeader (split_lines ?u) = []"
    by code_simp
  note t = parseDiffHunks_one_hunk_per_header [of ?t]
  note u = parseDiffHunks_one_hunk_per_header [of ?u]
  have "parseDiffHunks ?t = hunksBySpec (split_lines ?t)"
    using t by (rule conjunct1)
  then have 1: "parseDiffHunks ?t =
     [\<lparr>oldStart = 1, oldLines = 2, newStart = 1, newLines = 3, lines = ['' a'', ''+b'']\<rparr>,
      \<lparr>oldStart = 10, oldLines = 1, newStart = 11, newLines = 1, lines = [''-c'']\<rparr>]"
    using a by (rule trans)
  have "length (parseDiffHunks ?t) = length (filter isHeader (split_lines ?t))"
    using t by blast
  then have 2: "length (filter isHeader (split_lines ?t)) = 2"
    unfolding 1 by (simp only: list.size One_nat_def add_Suc_right add_0_right numeral_2_eq_2)
  have 3: "parseDiffHunks ?u = []"
    using u b by blast
  show ?thesis using 1 2 b 3 by blast
qed

lemma takeWhile_digits:
  "\<forall>x \<in> set a. is_digit x \<Longrightarrow> \<not> is_digit c \<Longrightarrow> takeWhile is_digit (a @ c # r) = a"
  by (induction a) auto

lemma dropWhile_digits:
  "\<forall>x \<in> set a. is_digit x \<Longrightarrow> \<not> is_digit c \<Longrightarrow> dropWhile is_digit (a @ c # r) = c # r"
  by (induction a) auto

lemma not_digit_space: "\<not> is_digit CHR '' ''"
  by (simp add: is_digit_def)

lemma not_digit_comma: "\<not> is_digit CHR '',''"
  by (simp add: is_digit_def)

text \<open>A header without the count of the old side, and one without that of the new side.\<close>

lemma hunkMatch_old_omitted:
  assumes "a \<noteq> []" "c \<noteq> []" "\<forall>x \<in> set a. is_digit x" "\<forall>x \<in> set c. is_digit x"
    "\<forall>x \<in> set d. is_digit x"
  shows "hunkMatch (''@@ -'' @ a @ '' +'' @ c @ '','' @ d @ '' @@'' @ rest) = Some (a, [], c, d)"
proof -
  have 1: "strip_prefix ''@@ -'' (''@@ -'' @ a @ '' +'' @ c @ '','' @ d @ '' @@'' @ rest)
      = Some (a @ CHR '' '' # (''+'' @ c @ '','' @ d @ '' @@'' @ rest))"
    by simp
  have 2: "takeWhile is_digit (a @ CHR '' '' # (''+'' @ c @ '','' @ d @ '' @@'' @ rest)) = a"
    by (rule takeWhile_digits [OF assms(3) not_digit_space])
  have 3: "dropWhile is_digit (a @ CHR '' '' # (''+'' @ c @ '','' @ d @ '' @@'' @ rest)) =
     CHR '' '' # (''+'' @ c @ '','' @ d @ '' @@'' @ rest)"
    by (rule dropWhile_digits [OF assms(3) not_digit_space])
  have 4: "takeWhile is_digit (c @ CHR '','' # (d @ '' @@'' @ rest)) = c"
    by (rule takeWhile_digits [OF assms(4) not_digit_comma])
  have 5: "dropWhile is_digit (c @ CHR '','' # (d @ '' @@'' @ rest)) =
     CHR '','' # (d @ '' @@'' @ rest)"
    by (rule dropWhile_digits [OF assms(4) not_digit_comma])
  have 6: "takeWhile is_digit (d @ CHR '' '' # (''@@'' @ rest)) = d"
    by (rule takeWhile_digits [OF assms(5) not_digit_space])
  have 7: "dropWhile is_digit (d @ CHR '' '' # (''@@'' @ rest)) = CHR '' '' # (''@@'' @ rest)"
    by (rule dropWhile_digits [OF assms(5) not_digit_space])
  show ?thesis
    unfolding hunkMatch_def 1 using assms(1,2) 2 3 4 5 6 7
    by (simp add: Let_def not_digit_space)
qed

lemma hunkMatch_new_omitted:
  assumes "a \<noteq> []" "c \<noteq> []" "\<forall>x \<in> set a. is_digit x" "\<forall>x \<in> set b. is_digit x"
    "\<forall>x \<in> set c. is_digit x"
  shows "hunkMatch (''@@ -'' @ a @ '','' @ b @ '' +'' @ c @ '' @@'' @ rest) = Some (a, b, c, [])"
proof -
  have 1: "strip_prefix ''@@ -'' (''@@ -'' @ a @ '','' @ b @ '' +'' @ c @ '' @@'' @ rest)
      = Some (a @ CHR '','' # (b @ '' +'' @ c @ '' @@'' @ rest))"
    by simp
  have 2: "takeWhile is_digit (a @ CHR '','' # (b @ '' +'' @ c @ '' @@'' @ rest)) = a"
    by (rule takeWhile_digits [OF assms(3) not_digit_comma])
  have 3: "dropWhile is_digit (a @ CHR '','' # (b @ '' +'' @ c @ '' @@'' @ rest)) =
     CHR '','' # (b @ '' +'' @ c @ '' @@'' @ rest)"
    by (rule dropWhile_digits [OF assms(3) not_digit_comma])
  have 4: "takeWhile is_digit (b @ CHR '' '' # (''+'' @ c @ '' @@'' @ rest)) = b"
    by (rule takeWhile_digits [OF assms(4) not_digit_space])
  have 5: "dropWhile is_digit (b @ CHR '' '' # (''+'' @ c @ '' @@'' @ rest)) =
     CHR '' '' # (''+'' @ c @ '' @@'' @ rest)"
    by (rule dropWhile_digits [OF assms(4) not_digit_space])
  have 6: "takeWhile is_digit (c @ CHR '' '' # (''@@'' @ rest)) = c"
    by (rule takeWhile_digits [OF assms(5) not_digit_space])
  have 7: "dropWhile is_digit (c @ CHR '' '' # (''@@'' @ rest)) = CHR '' '' # (''@@'' @ rest)"
    by (rule dropWhile_digits [OF assms(5) not_digit_space])
  show ?thesis
    unfolding hunkMatch_def 1 using assms(1,2) 2 3 4 5 6 7
    by (simp add: Let_def not_digit_space)
qed

lemma parseInt_1: "parseInt ''1'' = 1"
  by (simp add: parseInt_def digit_value_def)

lemma not_digit_newline: "\<not> is_digit newline"
  by (simp add: is_digit_def newline_def)

lemma digits_no_newline: "\<forall>x \<in> set a. is_digit x \<Longrightarrow> newline \<notin> set a"
  using not_digit_newline by blast

lemma parseDiffHunks_header_only:
  assumes "hunkMatch t = Some g" "newline \<notin> set t"
  shows "parseDiffHunks t = [newHunk g]"
  using assms by (simp add: parseDiffHunks_def split_lines_single)

text \<open>
  Claim C8. The header \<open>@@ -5 +5,2 @@\<close> parses to old start 5, old length 1, new
  start 5 and new length 2. In general a header whose old side has no count parses
  with old length 1, and a header whose new side has no count parses with new
  length 1; the other fields are the numbers written in the header.
\<close>

theorem parseDiffHunks_omitted_count:
  "parseDiffHunks ''@@ -5 +5,2 @@'' =
     [\<lparr>oldStart = 5, oldLines = 1, newStart = 5, newLines = 2, lines = []\<rparr>]
   \<and> (a \<noteq> [] \<and> c \<noteq> [] \<and> d \<noteq> [] \<and> (\<forall>x \<in> set (a @ c @ d). is_digit x) \<longrightarrow>
        parseDiffHunks (''@@ -'' @ a @ '' +'' @ c @ '','' @ d @ '' @@'') =
          [\<lparr>oldStart = parseInt a, oldLines = 1, newStart = parseInt c,
            newLines = parseInt d, lines = []\<rparr>])
   \<and> (a \<noteq> [] \<and> b \<noteq> [] \<and> c \<noteq> [] \<and> (\<forall>x \<in> set (a @ b @ c). is_digit x) \<longrightarrow>
        parseDiffHunks (''@@ -'' @ a @ '','' @ b @ '' +'' @ c @ '' @@'') =
          [\<lparr>oldStart = parseInt a, oldLines = parseInt b, newStart = parseInt c,
            newLines = 1, lines = []\<rparr>])"
proof (intro conjI impI)
  show "parseDiffHunks ''@@ -5 +5,2 @@'' =
     [\<lparr>oldStart = 5, oldLines = 1, newStart = 5, newLines = 2, lines = []\<rparr>]"
    by code_simp
next
  assume h: "a \<noteq> [] \<and> c \<noteq> [] \<and> d \<noteq> [] \<and> (\<forall>x \<in> set (a @ c @ d). is_digit x)"
  let ?t = "''@@ -'' @ a @ '' +'' @ c @ '','' @ d @ '' @@''"
  have m: "hunkMatch ?t = Some (a, [], c, d)"
    using h hunkMatch_old_omitted [of a c d "[]"] by simp
  have "newline \<notin> set ?t"
    using h digits_no_newline [of a] digits_no_newline [of c] digits_no_newline [of d]
    by (simp add: newline_def)
  then have "parseDiffHunks ?t = [newHunk (a, [], c, d)]"
    by (rule parseDiffHunks_header_only [OF m])
  then show "parseDiffHunks ?t =
      [\<lparr>oldStart = parseInt a, oldLines = 1, newStart = parseInt c,
        newLines = parseInt d, lines = []\<rparr>]"
    using h by (simp add: newHunk_def parseInt_1)
next
  assume h: "a \<noteq> [] \<and> b \<noteq> [] \<and> c \<noteq> [] \<and> (\<forall>x \<in> set (a @ b @ c). is_digit x)"
  let ?t = "''@@ -'' @ a @ '','' @ b @ '' +'' @ c @ '' @@''"
  have m: "hunkMatch ?t = Some (a, b, c, [])"
    using h hunkMatch_new_omitted [of a c b "[]"] by simp
  have "newline \<notin> set ?t"
    using h digits_no_newline [of a] digits_no_newline [of b] digits_no_newline [of c]
    by (simp add: newline_def)
  then have "parseDiffHunks ?t = [newHunk (a, b, c, [])]"
    by (rule parseDiffHunks_header_only [OF m])
  then show "parseDiffHunks ?t =
      [\<lparr>oldStart = parseInt a, oldLines = parseInt b, newStart = parseInt c,
        newLines = 1, lines = []\<rparr>]"
    using h by (simp add: newHunk_def parseInt_1)
qed

theorem parseDiffHunks_omitted_count_witness:
  "parseDiffHunks ''@@ -12 +14,3 @@'' =
     [\<lparr>oldStart = 12, oldLines = 1, newStart = 14, newLines = 3, lines = []\<rparr>]
   \<and> parseDiffHunks ''@@ -7,2 +9 @@'' =
     [\<lparr>oldStart = 7, oldLines = 2, newStart = 9, newLines = 1, lines = []\<rparr>]"
proof -
  have d: "\<forall>x \<in> set (''12'' @ ''14'' @ ''3''). is_digit x"
    "\<forall>x \<in> set (''7'' @ ''2'' @ ''9''). is_digit x"
    by (simp_all add: is_digit_def)
  have v: "parseInt ''12'' = 12" "parseInt ''14'' = 14" "parseInt ''3'' = 3"
    "parseInt ''7'' = 7" "parseInt ''2'' = 2" "parseInt ''9'' = 9"
    by (simp_all add: parseInt_def digit_value_def)
  show ?thesis
    using parseDiffHunks_omitted_count [of "''12''" "''14''" "''3''" "''2''"]
      parseDiffHunks_omitted_count [of "''7''" "''9''" "''3''" "''2''"] d v
    by simp
qed

section \<open>Properties of getDiff\<close>

text \<open>
  The loop invariant of \<open>getDiff\<close>: the loop appends one entry per file that is not
  binary, in the order of the summary, each with the status computed from the
  totals of the summary.
\<close>

lemma diffLoop_status:
  assumes "diffLoop gitDiff diffSummary fs acc = Inr diffs"
  shows "map status diffs = map status acc @
           map (\<lambda>f. if insertions diffSummary > 0 \<and> deletions diffSummary = 0 then added
               else if deletions diffSummary > 0 \<and> insertions diffSummary = 0 then deleted
               else modified) (filter (\<lambda>f. \<not> binary f) fs)
         \<and> map path diffs = map path acc @ map fileName (filter (\<lambda>f. \<not> binary f) fs)"
  using assms
proof (induction fs arbitrary: acc)
  case Nil
  then show ?case by simp
next
  case (Cons f fs)
  show ?case
  proof (cases "gitDiff (fileName f)")
    case (Inl e)
    then show ?thesis using Cons.prems by simp
  next
    case (Inr rawDiff)
    show ?thesis
    proof (cases "binary f")
      case True
      then show ?thesis using Cons.prems Inr Cons.IH [of acc] by simp
    next
      case False
      then show ?thesis using Cons.prems Inr
          Cons.IH [of "acc @ [\<lparr> path = fileName f, oldPath = None,
            status = (if insertions diffSummary > 0 \<and> deletions diffSummary = 0 then added
               else if deletions diffSummary > 0 \<and> insertions diffSummary = 0 then deleted
               else modified), hunks = parseDiffHunks rawDiff \<rparr>]"]
        by (simp add: Let_def)
    qed
  qed
qed

lemma getDiff_statuses:
  assumes "getDiff (Inr diffSummary) gitDiff = Inr diffs" "d \<in> set diffs"
  shows "status d = (if insertions diffSummary > 0 \<and> deletions diffSummary = 0 then added
               else if deletions diffSummary > 0 \<and> insertions diffSummary = 0 then deleted
               else modified)"
proof -
  have "diffLoop gitDiff diffSummary (files diffSummary) [] = Inr diffs"
    using assms(1) by (simp add: getDiff_def)
  then have "map status diffs =
      map (\<lambda>f. if insertions diffSummary > 0 \<and> deletions diffSummary = 0 then added
               else if deletions diffSummary > 0 \<and> insertions diffSummary = 0 then deleted
               else modified) (filter (\<lambda>f. \<not> binary f) (files diffSummary))"
    using diffLoop_status [of gitDiff diffSummary "files diffSummary" "[]" diffs] by simp
  moreover have "status d \<in> set (map status diffs)" using assms(2) by simp
  ultimately show ?thesis by auto
qed

text \<open>
  Claim C9. In one result of \<open>getDiff\<close> the status of every entry is computed from
  the insertion and deletion totals of the whole summary: it is added exactly when
  the summary has insertions and no deletion, deleted exactly when it has deletions
  and no insertion, and modified otherwise; it is never renamed, all entries of the
  result carry the same status, and the entries are the files of the summary that
  are not binary, in order.
\<close>

theorem getDiff_status_from_totals:
  assumes "getDiff (Inr diffSummary) gitDiff = Inr diffs"
  shows "(\<forall>d \<in> set diffs.
            (status d = added \<longleftrightarrow> insertions diffSummary > 0 \<and> deletions diffSummary = 0)
          \<and> (status d = deleted \<longleftrightarrow> deletions diffSummary > 0 \<and> insertions diffSummary = 0)
          \<and> (status d = modified \<longleftrightarrow>
                \<not> (insertions diffSummary > 0 \<and> deletions diffSummary = 0)
              \<and> \<not> (deletions diffSummary > 0 \<and> insertions diffSummary = 0))
          \<and> status d \<noteq> renamed)
       \<and> (\<forall>d \<in> set diffs. \<forall>d' \<in> set diffs. status d = status d')
       \<and> map path diffs = map fileName (filter (\<lambda>f. \<not> binary f) (files diffSummary))"
proof (intro conjI ballI)
  fix d assume d: "d \<in> set diffs"
  note s = getDiff_statuses [OF assms d]
  show "status d = added \<longleftrightarrow> insertions diffSummary > 0 \<and> deletions diffSummary = 0"
    using s by (simp split: if_splits)
  show "status d = deleted \<longleftrightarrow> deletions diffSummary > 0 \<and> insertions diffSummary = 0"
    using s by (simp split: if_splits)
  show "status d = modified \<longleftrightarrow>
                \<not> (insertions diffSummary > 0 \<and> deletions diffSummary = 0)
              \<and> \<not> (deletions diffSummary > 0 \<and> insertions diffSummary = 0)"
    using s by (simp split: if_splits)
  show "status d \<noteq> renamed"
    using s by (simp split: if_splits)
next
  fix d d' assume "d \<in> set diffs" "d' \<in> set diffs"
  then show "status d = status d'"
    using getDiff_statuses [OF assms] by simp
next
  have "diffLoop gitDiff diffSummary (files diffSummary) [] = Inr diffs"
    using assms by (simp add: getDiff_def)
  then show "map path diffs = map fileName (filter (\<lambda>f. \<not> binary f) (files diffSummary))"
    using diffLoop_status [of gitDiff diffSummary "files diffSummary" "[]" diffs] by simp
qed

text \<open>
  A summary of three files with insertions only: the two files that are not binary
  are both reported as added, whatever their own diffs hold.
\<close>

theorem getDiff_status_from_totals_witness:
  "getDiff (Inr \<lparr> files = [\<lparr>fileName = ''a.ts'', binary = False\<rparr>,
                            \<lparr>fileName = ''logo.png'', binary = True\<rparr>,
                            \<lparr>fileName = ''b.ts'', binary = False\<rparr>],
                   insertions = 3, deletions = 0 \<rparr>)
       (\<lambda>f. Inr ''@@ -1 +1,2 @@'') =
     Inr [\<lparr> path = ''a.ts'', oldPath = None, status = added,
            hunks = [\<lparr>oldStart = 1, oldLines = 1, newStart = 1, newLines = 2, lines = []\<rparr>] \<rparr>,
          \<lparr> path = ''b.ts'', oldPath = None, status = added,
            hunks = [\<lparr>oldStart = 1, oldLines = 1, newStart = 1, newLines = 2, lines = []\<rparr>] \<rparr>]
   \<and> status \<lparr> path = ''a.ts'', oldPath = None, status = added,
            hunks = [\<lparr>oldStart = 1, oldLines = 1, newStart = 1, newLines = 2, lines = []\<rparr>] \<rparr>
       \<noteq> renamed"
proof -
  let ?s = "\<lparr> files = [\<lparr>fileName = ''a.ts'', binary = False\<rparr>,
                            \<lparr>fileName = ''logo.png'', binary = True\<rparr>,
                            \<lparr>fileName = ''b.ts'', binary = False\<rparr>],
                   insertions = 3, deletions = 0 \<rparr>"
  let ?a = "\<lparr> path = ''a.ts'', oldPath = None, status = added,
            hunks = [\<lparr>oldStart = 1, oldLines = 1, newStart = 1, newLines = 2, lines = []\<rparr>] \<rparr>"
  let ?b = "\<lparr> path = ''b.ts'', oldPath = None, status = added,
            hunks = [\<lparr>oldStart = 1, oldLines = 1, newStart = 1, newLines = 2, lines = []\<rparr>] \<rparr>"
  have e: "getDiff (Inr ?s) (\<lambda>f. Inr ''@@ -1 +1,2 @@'') = Inr [?a, ?b]"
    by code_simp
  have "\<forall>d \<in> set [?a, ?b]. status d \<noteq> renamed"
    using getDiff_status_from_totals [OF e] by blast
  then have "status ?a \<noteq> renamed" by simp
  then show ?thesis using e by blast
qed

section \<open>Properties of readFile\<close>

lemma join_lines_linesText: "join_lines xs = linesText xs"
  by (induction xs rule: join_lines.induct) (simp_all add: newline_def split: list.splits)

lemma split_lines_linesText:
  assumes "xs \<noteq> []" "\<forall>l \<in> set xs. CHR 0x0A \<notin> set l"
  shows "split_lines (linesText xs) = xs"
proof -
  have "split_lines (join_lines xs) = xs"
    using assms by (intro split_join) (simp_all add: newline_def)
  then show ?thesis by (simp only: join_lines_linesText)
qed

text \<open>\<open>slice\<close> in terms of \<open>drop\<close> and \<open>take\<close>, for all integer bounds.\<close>

lemma take_drop_clamped:
  "take (min b (length xs) - min a (length xs)) (drop (min a (length xs)) xs) = drop a (take b xs)"
  by (cases "a \<le> length xs") (simp_all add: drop_take min_def)

lemma slice_drop_take:
  "slice xs a b =
     drop (nat (if a < 0 then int (length xs) + a else a))
       (take (nat (if b < 0 then int (length xs) + b else b)) xs)"
proof -
  let ?n = "length xs"
  let ?A = "nat (if a < 0 then int ?n + a else a)"
  let ?B = "nat (if b < 0 then int ?n + b else b)"
  have k: "nat (if a < 0 then max (int ?n + a) 0 else min a (int ?n)) = min ?A ?n"
    by auto
  have f: "nat ((if b < 0 then max (int ?n + b) 0 else min b (int ?n))
              - (if a < 0 then max (int ?n + a) 0 else min a (int ?n))) = min ?B ?n - min ?A ?n"
    by auto
  have "slice xs a b = take (min ?B ?n - min ?A ?n) (drop (min ?A ?n) xs)"
    unfolding slice_def Let_def k f ..
  also have "\<dots> = drop ?A (take ?B xs)"
    by (rule take_drop_clamped)
  finally show ?thesis .
qed

lemma readFile_slice:
  assumes "fs (join_path repoPath p) = Inr (linesText ls)" "ls \<noteq> []"
    "\<forall>l \<in> set ls. CHR 0x0A \<notin> set l" "startLine \<noteq> None \<or> endLine \<noteq> None"
  shows "readFile repoPath fs p startLine endLine =
     Inr (join_lines (slice ls
       ((case startLine of None \<Rightarrow> 1 | Some s \<Rightarrow> if s = 0 then 1 else s) - 1)
       (case endLine of None \<Rightarrow> int (length ls)
        | Some e \<Rightarrow> if e = 0 then int (length ls) else e)))"
proof -
  have sp: "split_lines (linesText ls) = ls"
    by (rule split_lines_linesText [OF assms(2,3)])
  show ?thesis
    unfolding readFile_def assms(1) using assms(4) by (simp add: Let_def sp)
qed

lemma start_index:
  "nat (if (case startLine of None \<Rightarrow> 1 | Some s \<Rightarrow> if s = 0 then 1 else s) - 1 < 0
        then int n + ((case startLine of None \<Rightarrow> 1 | Some s \<Rightarrow> if s = 0 then 1 else s) - 1)
        else (case startLine of None \<Rightarrow> 1 | Some s \<Rightarrow> if s = 0 then 1 else s) - 1) =
   (case startLine of None \<Rightarrow> 0
    | Some s \<Rightarrow> if 1 \<le> s then nat s - 1 else if s = 0 then 0 else n - nat (1 - s))"
  by (cases startLine) auto

lemma end_index:
  "nat (if (case endLine of None \<Rightarrow> int n | Some e \<Rightarrow> if e = 0 then int n else e) < 0
        then int n + (case endLine of None \<Rightarrow> int n | Some e \<Rightarrow> if e = 0 then int n else e)
        else (case endLine of None \<Rightarrow> int n | Some e \<Rightarrow> if e = 0 then int n else e)) =
   (case endLine of None \<Rightarrow> n
    | Some e \<Rightarrow> if 1 \<le> e then nat e else if e = 0 then n else n - nat (- e))"
  by (cases endLine) auto

lemma readFile_lines:
  assumes "fs (join_path repoPath p) = Inr (linesText ls)" "ls \<noteq> []"
    "\<forall>l \<in> set ls. CHR 0x0A \<notin> set l" "startLine \<noteq> None \<or> endLine \<noteq> None"
  shows "readFile repoPath fs p startLine endLine =
     Inr (linesText
       (drop (case startLine of None \<Rightarrow> 0
              | Some s \<Rightarrow> if 1 \<le> s then nat s - 1 else if s = 0 then 0
                         else length ls - nat (1 - s))
          (take (case endLine of None \<Rightarrow> length ls
                 | Some e \<Rightarrow> if 1 \<le> e then nat e else if e = 0 then length ls
                            else length ls - nat (- e)) ls)))"
proof -
  note r = readFile_slice [where fs = fs and repoPath = repoPath and p = p and ls = ls
      and startLine = startLine and endLine = endLine, OF assms]
  show ?thesis
    unfolding r slice_drop_take start_index end_index join_lines_linesText ..
qed

text \<open>
  Claim C7, as it is written, at a file of five lines where it fails: a bound
  below 1 is out of range and is not clamped. \<open>startLine = -1\<close> returns the last
  two lines (clamped to the file it would return all five, as \<open>startLine = 1\<close>
  does), and \<open>endLine = -1\<close> with \<open>startLine = 1\<close> returns the first four
  lines (clamped to the file it would select the first line at most).
\<close>

theorem readFile_negative_bound_not_clamped:
  "readFile ''/repo''
      (\<lambda>f. if f = ''/repo/a.txt'' then Inr ''one\<newline>two\<newline>three\<newline>four\<newline>five''
           else Inl ''ENOENT'')
      ''a.txt'' (Some (- 1)) None = Inr ''four\<newline>five''
   \<and> readFile ''/repo''
      (\<lambda>f. if f = ''/repo/a.txt'' then Inr ''one\<newline>two\<newline>three\<newline>four\<newline>five''
           else Inl ''ENOENT'')
      ''a.txt'' (Some 1) (Some (- 1)) = Inr ''one\<newline>two\<newline>three\<newline>four''
   \<and> readFile ''/repo''
      (\<lambda>f. if f = ''/repo/a.txt'' then Inr ''one\<newline>two\<newline>three\<newline>four\<newline>five''
           else Inl ''ENOENT'')
      ''a.txt'' (Some 1) None = Inr ''one\<newline>two\<newline>three\<newline>four\<newline>five''"
  by code_simp

text \<open>
  Claim C7, amended. Let the file be readable and hold the lines \<open>ls\<close>. With a
  line range, \<open>readFile\<close> never fails and returns the lines from a first to a last
  line, joined by newlines. For bounds counted from 1 these are the lines from
  \<open>startLine\<close> to \<open>endLine\<close>, both included, and a bound beyond the last line
  is clamped to the file (a \<open>startLine\<close> beyond it gives the empty text). A
  bound that is absent or 0 stands for the first line (\<open>startLine\<close>) or the last
  line (\<open>endLine\<close>). A negative bound is not clamped: it counts from the end of
  the file, \<open>startLine = -k\<close> starting \<open>k + 1\<close> lines before the end and
  \<open>endLine = -k\<close> leaving out the last \<open>k\<close> lines. On a file of five lines,
  \<open>startLine = 2\<close> with \<open>endLine = 3\<close> returns the second line, a newline
  and the third line, and \<open>startLine = 10\<close> returns the empty text.
\<close>

theorem readFile_line_range:
  assumes "fs (join_path repoPath p) = Inr (linesText ls)" "ls \<noteq> []"
    "\<forall>l \<in> set ls. CHR 0x0A \<notin> set l"
  shows "(startLine \<noteq> None \<or> endLine \<noteq> None \<longrightarrow>
            readFile repoPath fs p startLine endLine =
              Inr (linesText
                (drop (case startLine of None \<Rightarrow> 0
                       | Some s \<Rightarrow> if 1 \<le> s then nat s - 1 else if s = 0 then 0
                                  else length ls - nat (1 - s))
                   (take (case endLine of None \<Rightarrow> length ls
                          | Some e \<Rightarrow> if 1 \<le> e then nat e else if e = 0 then length ls
                                     else length ls - nat (- e)) ls))))
       \<and> (1 \<le> s \<and> 1 \<le> e \<longrightarrow>
            readFile repoPath fs p (Some s) (Some e) =
              Inr (linesText (drop (nat s - 1) (take (nat e) ls))))
       \<and> (int (length ls) < s \<longrightarrow>
            (\<forall>endLine. readFile repoPath fs p (Some s) endLine = Inr []))
       \<and> (s < 0 \<longrightarrow>
            readFile repoPath fs p (Some s) None =
              Inr (linesText (drop (length ls - nat (1 - s)) ls)))
       \<and> readFile repoPath fs p None None = Inr (linesText ls)
       \<and> (ls = [l1, l2, l3, l4, l5] \<longrightarrow>
            readFile repoPath fs p (Some 2) (Some 3) = Inr (l2 @ CHR 0x0A # l3)
          \<and> (\<forall>endLine. readFile repoPath fs p (Some 10) endLine = Inr []))"
proof -
  note r = readFile_lines [where fs = fs and repoPath = repoPath and p = p and ls = ls,
      OF assms]
  have g: "startLine \<noteq> None \<or> endLine \<noteq> None \<longrightarrow>
            readFile repoPath fs p startLine endLine =
              Inr (linesText
                (drop (case startLine of None \<Rightarrow> 0
                       | Some s \<Rightarrow> if 1 \<le> s then nat s - 1 else if s = 0 then 0
                                  else length ls - nat (1 - s))
                   (take (case endLine of None \<Rightarrow> length ls
                          | Some e \<Rightarrow> if 1 \<le> e then nat e else if e = 0 then length ls
                                     else length ls - nat (- e)) ls)))"
    using r [of startLine endLine] by blast
  have a: "1 \<le> s \<and> 1 \<le> e \<longrightarrow>
            readFile repoPath fs p (Some s) (Some e) =
              Inr (linesText (drop (nat s - 1) (take (nat e) ls)))"
    using r [of "Some s" "Some e"] by simp
  have b: "int (length ls) < s \<longrightarrow>
            (\<forall>endLine. readFile repoPath fs p (Some s) endLine = Inr [])"
  proof (intro impI allI)
    fix endLine
    assume h: "int (length ls) < s"
    then have "1 \<le> s" "length ls \<le> nat s - 1" by auto
    then show "readFile repoPath fs p (Some s) endLine = Inr []"
      using r [of "Some s" endLine] by simp
  qed
  have c: "s < 0 \<longrightarrow>
            readFile repoPath fs p (Some s) None =
              Inr (linesText (drop (length ls - nat (1 - s)) ls))"
    using r [of "Some s" None] by simp
  have d: "readFile repoPath fs p None None = Inr (linesText ls)"
    using assms(1) by (simp add: readFile_def)
  have e: "ls = [l1, l2, l3, l4, l5] \<longrightarrow>
            readFile repoPath fs p (Some 2) (Some 3) = Inr (l2 @ CHR 0x0A # l3)
          \<and> (\<forall>endLine. readFile repoPath fs p (Some 10) endLine = Inr [])"
  proof (intro impI conjI allI)
    assume h: "ls = [l1, l2, l3, l4, l5]"
    show "readFile repoPath fs p (Some 2) (Some 3) = Inr (l2 @ CHR 0x0A # l3)"
      using r [of "Some 2" "Some 3"] unfolding h by (simp add: numeral_3_eq_3)
    fix endLine
    show "readFile repoPath fs p (Some 10) endLine = Inr []"
      using r [of "Some 10" endLine] unfolding h by simp
  qed
  show ?thesis using g a b c d e by blast
qed

theorem readFile_line_range_witness:
  "readFile ''/repo''
      (\<lambda>f. if f = ''/repo/a.txt'' then Inr ''one\<newline>two\<newline>three\<newline>four\<newline>five''
           else Inl ''ENOENT'')
      ''a.txt'' (Some 2) (Some 3) = Inr ''two\<newline>three''
   \<and> readFile ''/repo''
      (\<lambda>f. if f = ''/repo/a.txt'' then Inr ''one\<newline>two\<newline>three\<newline>four\<newline>five''
           else Inl ''ENOENT'')
      ''a.txt'' (Some 10) None = Inr []
   \<and> readFile ''/repo''
      (\<lambda>f. if f = ''/repo/a.txt'' then Inr ''one\<newline>two\<newline>three\<newline>four\<newline>five''
           else Inl ''ENOENT'')
      ''a.txt'' (Some 4) (Some 9) = Inr ''four\<newline>five''
   \<and> readFile ''/repo''
      (\<lambda>f. if f = ''/repo/a.txt'' then Inr ''one\<newline>two\<newline>three\<newline>four\<newline>five''
           else Inl ''ENOENT'')
      ''a.txt'' (Some (- 2)) None = Inr ''three\<newline>four\<newline>five''"
proof -
  let ?fs = "\<lambda>f. if f = ''/repo/a.txt''
      then Inr ''one\<newline>two\<newline>three\<newline>four\<newline>five'' else Inl ''ENOENT''"
  let ?ls = "[''one'', ''two'', ''three'', ''four'', ''five'']"
  have f: "?fs (join_path ''/repo'' ''a.txt'') = Inr (linesText ?ls)"
    by (simp add: join_path_def)
  have ne: "?ls \<noteq> []"
    by simp
  have nl: "\<forall>l \<in> set ?ls. CHR 0x0A \<notin> set l"
    by simp
  note t = readFile_line_range [where fs = ?fs and repoPath = "''/repo''" and p = "''a.txt''"
      and ls = ?ls and ?l1.0 = "''one''" and ?l2.0 = "''two''" and ?l3.0 = "''three''"
      and ?l4.0 = "''four''" and ?l5.0 = "''five''", OF f ne nl]
  have "readFile ''/repo'' ?fs ''a.txt'' (Some 2) (Some 3) = Inr (''two'' @ CHR 0x0A # ''three'')"
    using t [of _ _ 4 9] by blast
  then have 1: "readFile ''/repo'' ?fs ''a.txt'' (Some 2) (Some 3) = Inr ''two\<newline>three''"
    by simp
  have 2: "readFile ''/repo'' ?fs ''a.txt'' (Some 10) None = Inr []"
    using t [of _ _ 4 9] by blast
  have "readFile ''/repo'' ?fs ''a.txt'' (Some 4) (Some 9) =
      Inr (linesText (drop (nat 4 - 1) (take (nat 9) ?ls)))"
    using t [of _ _ 4 9] by simp
  then have 3: "readFile ''/repo'' ?fs ''a.txt'' (Some 4) (Some 9) = Inr ''four\<newline>five''"
    by (simp add: numeral_3_eq_3)
  have "readFile ''/repo'' ?fs ''a.txt'' (Some (- 2)) None =
      Inr (linesText (drop (length ?ls - nat (1 - (- 2))) ?ls))"
    using t [of _ _ "- 2" 9] by simp
  then have 4: "readFile ''/repo'' ?fs ''a.txt'' (Some (- 2)) None =
      Inr ''three\<newline>four\<newline>five''"
    by (simp add: numeral_3_eq_3 numeral_2_eq_2)
  show ?thesis using 1 2 3 4 by blast
qed

section \<open>Properties of search\<close>

text \<open>A file that cannot be read adds nothing to the result and raises nothing.\<close>

lemma searchFiles_skips_unreadable:
  assumes "readFile repoPath fs f None None = Inl e"
  shows "searchFiles m repoPath fs (f # rest) st = searchFiles m repoPath fs rest st"
  using assms by simp

text \<open>
  Claim C5, evaluated where the code departs from it. The file \<open>a.txt\<close> holds the
  two lines \<open>xxfoo\<close> and \<open>foo\<close>, and the pattern is \<open>foo\<close>. The pattern
  matches both lines, so the claim asks for two entries. \<open>search\<close> returns the
  entry of line 1 only: the match in line 1 leaves \<open>lastIndex = 5\<close> in the
  expression object, which is beyond the end of line 2, so \<open>regex.test\<close> on line 2
  is false.
\<close>

theorem search_misses_matching_line:
  "search (\<lambda>p. Inr (literal_matcher p)) (\<lambda>g cwd. Inr [''a.txt'']) ''/repo''
      (\<lambda>f. if f = ''/repo/a.txt'' then Inr (join_lines [''xxfoo'', ''foo'']) else Inl ''ENOENT'')
      ''foo'' None None =
     Inr [\<lparr> file_path = ''a.txt'', line = 1, content = ''xxfoo'' \<rparr>]
   \<and> matchesBySpec (literal_matcher ''foo'') ''a.txt'' (split_lines (join_lines [''xxfoo'', ''foo''])) =
     [\<lparr> file_path = ''a.txt'', line = 1, content = ''xxfoo'' \<rparr>,
      \<lparr> file_path = ''a.txt'', line = 2, content = ''foo'' \<rparr>]
   \<and> regex_test (literal_matcher ''foo'') ''xxfoo'' 0 = (True, 5)
   \<and> regex_test (literal_matcher ''foo'') ''foo'' 5 = (False, 0)
   \<and> regex_test (literal_matcher ''foo'') ''foo'' 0 = (True, 3)"
  by code_simp

text \<open>
  With a search path the files are listed under that path but read under the
  repository path: the file \<open>src/a.ts\<close> holds a matching line, the listing of
  \<open>/repo/src\<close> names it \<open>a.ts\<close>, and \<open>search\<close> reads \<open>/repo/a.ts\<close>, which
  does not exist, and skips it.
\<close>

lemma search_reads_under_repoPath:
  "search (\<lambda>p. Inr (literal_matcher p))
      (\<lambda>g cwd. if cwd = ''/repo/src'' then Inr [''a.ts''] else Inr []) ''/repo''
      (\<lambda>f. if f = ''/repo/src/a.ts'' then Inr ''foo'' else Inl ''ENOENT'')
      ''foo'' (Some ''src'') None = Inr []"
  by code_simp

section \<open>Properties of the process\<close>

lemma exitWithError_code:
  assumes "exitCode w = None"
  shows "exitCode (exitWithError message w) = Some (if FAIL_SAFE w then 0 else 1)"
    and "errors (exitWithError message w) = errors w @ [message]"
    and "responses (exitWithError message w) = responses w"
    and "socket (exitWithError message w) = socket w"
    and "reviewTimeout (exitWithError message w) = reviewTimeout w"
    and "idleTimeout (exitWithError message w) = idleTimeout w"
    and "connectTimeout (exitWithError message w) = connectTimeout w"
  using assms by (simp_all add: exitWithError_def process_exit_def Let_def)

lemma disconnect_fields:
  "exitCode (disconnect w) = exitCode w" "FAIL_SAFE (disconnect w) = FAIL_SAFE w"
  "errors (disconnect w) = errors w" "responses (disconnect w) = responses w"
  "socket (disconnect w) = False" "reviewTimeout (disconnect w) = reviewTimeout w"
  "idleTimeout (disconnect w) = idleTimeout w" "connectTimeout (disconnect w) = connectTimeout w"
  by (simp_all add: disconnect_def)

lemma onCriticalError_exits:
  assumes "exitCode w = None"
  shows "exitCode (onCriticalError message w) = Some (if FAIL_SAFE w then 0 else 1)"
    and "errors (onCriticalError message w) = errors w @ [CriticalError message]"
    and "responses (onCriticalError message w) = responses w"
    and "socket (onCriticalError message w) = False"
    and "reviewTimeout (onCriticalError message w) = False"
    and "idleTimeout (onCriticalError message w) = False"
    and "connectTimeout (onCriticalError message w) = connectTimeout w"
  using assms by (simp_all add: onCriticalError_def exitWithError_code disconnect_fields)

lemma idleTimeoutFires_exits:
  assumes "exitCode w = None"
  shows "exitCode (idleTimeoutFires w) = Some (if FAIL_SAFE w then 0 else 1)"
    and "errors (idleTimeoutFires w) = errors w @ [IdleTimeout]"
    and "reviewTimeout (idleTimeoutFires w) = reviewTimeout w"
    and "idleTimeout (idleTimeoutFires w) = False"
    and "socket (idleTimeoutFires w) = False"
  using assms by (simp_all add: idleTimeoutFires_def exitWithError_code disconnect_fields)

lemma reviewTimeoutFires_exits:
  assumes "exitCode w = None" "\<not> reviewCompleted w"
  shows "exitCode (reviewTimeoutFires w) = Some (if FAIL_SAFE w then 0 else 1)"
    and "errors (reviewTimeoutFires w) = errors w @ [ReviewTimeout]"
    and "reviewTimeout (reviewTimeoutFires w) = False"
    and "idleTimeout (reviewTimeoutFires w) = False"
    and "connectTimeout (reviewTimeoutFires w) = connectTimeout w"
  using assms
  by (simp_all add: reviewTimeoutFires_def Let_def exitWithError_code disconnect_fields)

lemma connectTimeoutFires_exits:
  assumes "exitCode w = None"
  shows "exitCode (connectTimeoutFires w) = Some (if FAIL_SAFE w then 0 else 1)"
    and "errors (connectTimeoutFires w) = errors w @ [ConnectionTimeout]"
  using assms by (simp_all add: connectTimeoutFires_def exitWithError_code)

lemma connectRejected_exits:
  assumes "exitCode w = None"
  shows "exitCode (connectRejected m w) = Some (if FAIL_SAFE w then 0 else 1)"
    and "errors (connectRejected m w) = errors w @ [AgentFailed m]"
  using assms by (simp_all add: connectRejected_def exitWithError_code)

lemma reviewCompleteDone_exits:
  assumes "exitCode w = None"
  shows "exitCode (reviewCompleteDone w) = Some 0"
    and "errors (reviewCompleteDone w) = errors w"
  using assms by (simp_all add: reviewCompleteDone_def process_exit_def disconnect_def)

lemma enabled_running: "enabled e w \<Longrightarrow> exitCode w = None"
  by (cases e) simp_all

lemma step_after_exit: "exitCode w \<noteq> None \<Longrightarrow> step e w = w"
  using enabled_running [of e w] by (auto simp: step_def)

lemma run_after_exit: "exitCode w \<noteq> None \<Longrightarrow> run es w = w"
  by (induction es) (simp_all add: step_after_exit)

section \<open>Properties of the command dispatcher\<close>

lemma get_diff_critical: "''get_diff'' \<in> set criticalCommands"
  by (simp add: criticalCommands_def)

lemma critical_only_get_diff: "ty \<in> set criticalCommands \<longleftrightarrow> ty = ''get_diff''"
  by (auto simp: criticalCommands_def)

lemma runHandler_get_diff: "type command = ''get_diff'' \<Longrightarrow> runHandler hs command = handleGetDiff hs"
  by (simp add: runHandler_def)

lemma runHandler_run_check:
  "type command = ''run_check'' \<Longrightarrow> runHandler hs command = Inl ''Unknown command type: run_check''"
  by (simp add: runHandler_def)

lemma escalate_not_critical:
  "type command \<notin> set criticalCommands \<Longrightarrow> escalate cb command outcome w = w"
  by (simp add: escalate_def split: sum.splits)

lemma escalate_success: "escalate cb command (Inr d) w = w"
  by (simp add: escalate_def)

lemma buildResponse_commandId:
  "AgentResponse.commandId (buildResponse command outcome) = AgentCommand.commandId command"
  by (simp add: buildResponse_def split: sum.splits)

text \<open>
  Unless a critical command failed, \<open>handleCommand\<close> calls no callback: it builds
  the response and hands it to the socket.
\<close>

lemma handleCommand_without_escalation:
  assumes "type command \<notin> set criticalCommands \<or> (\<exists>d. runHandler hs command = Inr d)"
  shows "handleCommand cb hs command w =
     emitResponse (buildResponse command (runHandler hs command)) w"
  using assms escalate_not_critical [of command cb "runHandler hs command" w]
  by (auto simp: handleCommand_def Let_def escalate_success)

text \<open>
  Claim C1, evaluated where the code departs from it. In a running agent with a
  connected socket and the callback of \<open>main\<close> set, the handler of a \<open>get_diff\<close>
  command fails. \<open>handleCommand\<close> raises nothing and builds the failed response
  with the command id of the command, but the callback it calls before the emission
  exits the process, so no response is returned for this command. A \<open>read_file\<close>
  command whose handler fails in the same state is answered with its one failed
  response.
\<close>

theorem handleCommand_failed_get_diff_returns_no_response:
  "buildResponse \<lparr> AgentCommand.commandId = ''c2'', type = ''get_diff'', params = () \<rparr>
      (runHandler
        \<lparr> handleReadFile = (\<lambda>p. Inl ''Failed to read file x: ENOENT''),
          handleGetDiff = Inl ''fatal: bad revision'',
          handleSearch = (\<lambda>p. Inr ''found''), handleListFiles = (\<lambda>p. Inr ''files''),
          handleGetDependencies = Inr ''deps'' \<rparr>
        \<lparr> AgentCommand.commandId = ''c2'', type = ''get_diff'', params = () \<rparr>) =
     \<lparr> AgentResponse.commandId = ''c2'', success = False, data = None,
       error = Some ''fatal: bad revision'' \<rparr>
   \<and> responses (handleCommand (Some onCriticalError)
        \<lparr> handleReadFile = (\<lambda>p. Inl ''Failed to read file x: ENOENT''),
          handleGetDiff = Inl ''fatal: bad revision'',
          handleSearch = (\<lambda>p. Inr ''found''), handleListFiles = (\<lambda>p. Inr ''files''),
          handleGetDependencies = Inr ''deps'' \<rparr>
        \<lparr> AgentCommand.commandId = ''c2'', type = ''get_diff'', params = () \<rparr>
        (run [ConnectResolved] (initial False False))) = []
   \<and> responses (handleCommand (Some onCriticalError)
        \<lparr> handleReadFile = (\<lambda>p. Inl ''Failed to read file x: ENOENT''),
          handleGetDiff = Inl ''fatal: bad revision'',
          handleSearch = (\<lambda>p. Inr ''found''), handleListFiles = (\<lambda>p. Inr ''files''),
          handleGetDependencies = Inr ''deps'' \<rparr>
        \<lparr> AgentCommand.commandId = ''c7'', type = ''read_file'', params = () \<rparr>
        (run [ConnectResolved] (initial False False))) =
     [\<lparr> AgentResponse.commandId = ''c7'', success = False, data = None,
        error = Some ''Failed to read file x: ENOENT'' \<rparr>]"
  by code_simp

text \<open>
  Claim C3, evaluated where the code departs from it. The callback that \<open>main\<close>
  gives to \<open>onCriticalError\<close> disconnects the socket and exits the process.
  \<open>handleCommand\<close> calls it inside the \<open>catch\<close>, before the line that emits
  the response. So when the handler of \<open>get_diff\<close> fails in a running process,
  the critical error is reported and the process exits (with code 1, or 0 in
  fail-safe mode), and the failed response that was built is never emitted.
\<close>

theorem handleCommand_critical_failure_exits_before_response:
  assumes "type command = ''get_diff''" "handleGetDiff hs = Inl message" "exitCode w = None"
  shows "responses (handleCommand (Some onCriticalError) hs command w) = responses w
       \<and> exitCode (handleCommand (Some onCriticalError) hs command w) =
           Some (if FAIL_SAFE w then 0 else 1)
       \<and> socket (handleCommand (Some onCriticalError) hs command w) = False
       \<and> errors (handleCommand (Some onCriticalError) hs command w) =
           errors w @ [CriticalError (criticalMessage ''get_diff'' message)]"
proof -
  let ?w1 = "onCriticalError (criticalMessage ''get_diff'' message) w"
  have r: "runHandler hs command = Inl message"
    using assms(1,2) by (simp add: runHandler_get_diff)
  have e: "escalate (Some onCriticalError) command (Inl message) w = ?w1"
    using assms(1) by (simp add: escalate_def get_diff_critical)
  have x: "exitCode ?w1 \<noteq> None"
    using onCriticalError_exits(1) [OF assms(3)] by simp
  have h: "handleCommand (Some onCriticalError) hs command w = ?w1"
    using r e x by (simp add: handleCommand_def Let_def emitResponse_def)
  show ?thesis
    unfolding h using onCriticalError_exits [OF assms(3)] by simp
qed

theorem handleCommand_critical_failure_exits_before_response_witness:
  "responses (handleCommand (Some onCriticalError)
      \<lparr> handleReadFile = (\<lambda>p. Inr ''text''), handleGetDiff = Inl ''fatal: bad revision'',
        handleSearch = (\<lambda>p. Inr ''found''), handleListFiles = (\<lambda>p. Inr ''files''),
        handleGetDependencies = Inr ''deps'' \<rparr>
      \<lparr> AgentCommand.commandId = ''c2'', type = ''get_diff'', params = () \<rparr>
      (run [ConnectResolved] (initial False False))) = []
   \<and> exitCode (handleCommand (Some onCriticalError)
      \<lparr> handleReadFile = (\<lambda>p. Inr ''text''), handleGetDiff = Inl ''fatal: bad revision'',
        handleSearch = (\<lambda>p. Inr ''found''), handleListFiles = (\<lambda>p. Inr ''files''),
        handleGetDependencies = Inr ''deps'' \<rparr>
      \<lparr> AgentCommand.commandId = ''c2'', type = ''get_diff'', params = () \<rparr>
      (run [ConnectResolved] (initial False False))) = Some 1"
proof -
  let ?hs = "\<lparr> handleReadFile = (\<lambda>p. Inr ''text''), handleGetDiff = Inl ''fatal: bad revision'',
        handleSearch = (\<lambda>p. Inr ''found''), handleListFiles = (\<lambda>p. Inr ''files''),
        handleGetDependencies = Inr ''deps'' \<rparr> :: (unit, string) handlers"
  let ?c = "\<lparr> AgentCommand.commandId = ''c2'', type = ''get_diff'', params = () \<rparr>"
  let ?w = "run [ConnectResolved] (initial False False) :: string world"
  have a: "type ?c = ''get_diff''" "handleGetDiff ?hs = Inl ''fatal: bad revision''"
    by simp_all
  have w: "exitCode ?w = None" "responses ?w = []" "FAIL_SAFE ?w = False"
    by code_simp+
  show ?thesis
    using handleCommand_critical_failure_exits_before_response [OF a w(1)] w(2,3)
    by simp
qed

text \<open>
  Claim C10. A command of the declared type \<open>run_check\<close> has no case in the
  \<open>switch\<close>: its handler outcome is the error of the default case, the response
  is \<open>{commandId, success: false, error: "Unknown command type: run_check"}\<close>,
  the type is not a critical command, the critical-error callback is not called
  (the state before the emission is the state before the command), and in a running
  process with a connected socket the response is emitted.
\<close>

theorem handleCommand_run_check_is_unknown:
  assumes "type command = ''run_check''"
  shows "runHandler hs command = Inl ''Unknown command type: run_check''
       \<and> buildResponse command (runHandler hs command) =
           \<lparr> AgentResponse.commandId = AgentCommand.commandId command, success = False,
             data = None, error = Some ''Unknown command type: run_check'' \<rparr>
       \<and> ''run_check'' \<notin> set criticalCommands
       \<and> escalate cb command (runHandler hs command) w = w
       \<and> handleCommand cb hs command w =
           emitResponse \<lparr> AgentResponse.commandId = AgentCommand.commandId command,
             success = False, data = None,
             error = Some ''Unknown command type: run_check'' \<rparr> w
       \<and> (exitCode w = None \<and> socket w \<longrightarrow>
            handleCommand cb hs command w =
              w\<lparr>responses := responses w @
                [\<lparr> AgentResponse.commandId = AgentCommand.commandId command,
                   success = False, data = None,
                   error = Some ''Unknown command type: run_check'' \<rparr>]\<rparr>)"
proof -
  have r: "runHandler hs command = Inl ''Unknown command type: run_check''"
    by (rule runHandler_run_check [OF assms])
  have n: "''run_check'' \<notin> set criticalCommands"
    by (simp add: criticalCommands_def)
  have e: "escalate cb command (runHandler hs command) w = w"
    using n assms by (simp add: escalate_not_critical)
  have b: "buildResponse command (runHandler hs command) =
           \<lparr> AgentResponse.commandId = AgentCommand.commandId command, success = False,
             data = None, error = Some ''Unknown command type: run_check'' \<rparr>"
    unfolding r by (simp add: buildResponse_def)
  have h: "handleCommand cb hs command w =
           emitResponse \<lparr> AgentResponse.commandId = AgentCommand.commandId command,
             success = False, data = None,
             error = Some ''Unknown command type: run_check'' \<rparr> w"
    using e b by (simp add: handleCommand_def Let_def)
  show ?thesis
    using r b n e h by (simp add: emitResponse_def)
qed

theorem handleCommand_run_check_is_unknown_witness:
  "handleCommand (Some onCriticalError)
      \<lparr> handleReadFile = (\<lambda>p. Inr ''text''), handleGetDiff = Inr ''diff'',
        handleSearch = (\<lambda>p. Inr ''found''), handleListFiles = (\<lambda>p. Inr ''files''),
        handleGetDependencies = Inr ''deps'' \<rparr>
      \<lparr> AgentCommand.commandId = ''c3'', type = ''run_check'', params = () \<rparr>
      (run [ConnectResolved] (initial False False)) =
     (run [ConnectResolved] (initial False False))
       \<lparr>responses := [\<lparr> AgentResponse.commandId = ''c3'', success = False, data = None,
                        error = Some ''Unknown command type: run_check'' \<rparr>]\<rparr>"
proof -
  let ?hs = "\<lparr> handleReadFile = (\<lambda>p. Inr ''text''), handleGetDiff = Inr ''diff'',
        handleSearch = (\<lambda>p. Inr ''found''), handleListFiles = (\<lambda>p. Inr ''files''),
        handleGetDependencies = Inr ''deps'' \<rparr> :: (unit, string) handlers"
  let ?c = "\<lparr> AgentCommand.commandId = ''c3'', type = ''run_check'', params = () \<rparr>"
  let ?w = "run [ConnectResolved] (initial False False) :: string world"
  have a: "type ?c = ''run_check''"
    by simp
  have w: "exitCode ?w = None \<and> socket ?w" "responses ?w = []"
    by code_simp+
  have i: "AgentCommand.commandId ?c = ''c3''"
    by simp
  note t = handleCommand_run_check_is_unknown [OF a, of ?hs "Some onCriticalError" ?w]
  have "handleCommand (Some onCriticalError) ?hs ?c ?w =
      ?w\<lparr>responses := responses ?w @
        [\<lparr> AgentResponse.commandId = AgentCommand.commandId ?c, success = False, data = None,
           error = Some ''Unknown command type: run_check'' \<rparr>]\<rparr>"
    using t w(1) by blast
  then show ?thesis
    unfolding w(2) i by (simp only: append_Nil)
qed

text \<open>
  Claim C4, evaluated where the code departs from it. The callback of the idle
  timer disconnects and exits without clearing the review timer: when the idle
  timer fires in a running process, the process exits while the review timer is
  as it was, so still pending if it was pending.
\<close>

theorem idleTimeoutFires_leaves_reviewTimeout:
  assumes "enabled IdleTimeoutFires w"
  shows "exitCode (step IdleTimeoutFires w) = Some (if FAIL_SAFE w then 0 else 1)
       \<and> reviewTimeout (step IdleTimeoutFires w) = reviewTimeout w
       \<and> (reviewTimeout w \<longrightarrow> \<not> timersCleared (step IdleTimeoutFires w))"
  using assms idleTimeoutFires_exits [of w]
  by (simp add: step_def timersCleared_def)

theorem idleTimeoutFires_leaves_reviewTimeout_witness:
  "enabled IdleTimeoutFires (run [ConnectResolved] (initial False False :: string world))
   \<and> exitCode (run [ConnectResolved, IdleTimeoutFires] (initial False False :: string world))
       = Some 1
   \<and> reviewTimeout (run [ConnectResolved, IdleTimeoutFires] (initial False False :: string world))
   \<and> \<not> timersCleared
         (run [ConnectResolved, IdleTimeoutFires] (initial False False :: string world))"
proof -
  let ?w = "run [ConnectResolved] (initial False False) :: string world"
  have w: "enabled IdleTimeoutFires ?w" "reviewTimeout ?w" "FAIL_SAFE ?w = False"
    by (simp_all add: step_def connectResolved_def resetIdleTimeout_def initial_def)
  have r: "run [ConnectResolved, IdleTimeoutFires] (initial False False :: string world) =
      step IdleTimeoutFires ?w"
    by simp
  show ?thesis
    unfolding r using idleTimeoutFires_leaves_reviewTimeout [OF w(1)] w by simp
qed

text \<open>
  The other two failure triggers do clear the timers: when the review timer fires
  before the review has completed, or a critical error is signalled, no timer is
  pending when the process exits (the connect timer was cleared when the connection
  was made). After the exit no event changes the state.
\<close>

lemma failure_triggers_clear_timers:
  assumes "\<not> connectTimeout w"
  shows "enabled ReviewTimeoutFires w \<and> \<not> reviewCompleted w \<longrightarrow>
           timersCleared (step ReviewTimeoutFires w)"
    and "enabled (CriticalErrorSignal m) w \<longrightarrow> timersCleared (step (CriticalErrorSignal m) w)"
  using assms reviewTimeoutFires_exits [of w] onCriticalError_exits [of w m]
  by (simp_all add: step_def timersCleared_def)

lemma onReviewComplete_exit:
  assumes "enabled ReviewComplete w"
  shows "exitCode (run [ReviewComplete, PublishWaitOver] w) = Some 0"
proof (cases "pendingBitbucketPublish w")
  case True
  then show ?thesis
    using assms
    by (simp add: step_def onReviewComplete_def Let_def reviewCompleteDone_def
        process_exit_def disconnect_def)
next
  case False
  then show ?thesis
    using assms
    by (simp add: step_def onReviewComplete_def Let_def reviewCompleteDone_def
        process_exit_def disconnect_def)
qed

text \<open>
  Claim C6. Every failure path of a running process (the connect timer fires, the
  connection fails, the idle timer fires, the review timer fires before the review
  has completed, a critical error is signalled, the handler of the critical command
  \<open>get_diff\<close> fails, \<open>main\<close> itself rejects) prints its message and exits
  with code 0 when fail-safe mode is on and with code 1 when it is off. The review-complete path exits with
  code 0 in both modes, at once when no publication is pending and after the bounded
  wait when one is.
\<close>

theorem exit_code_by_path:
  "(enabled ConnectTimeoutFires w \<longrightarrow>
      exitCode (step ConnectTimeoutFires w) = Some (if FAIL_SAFE w then 0 else 1)
    \<and> errors (step ConnectTimeoutFires w) = errors w @ [ConnectionTimeout])
   \<and> (enabled (ConnectRejected m) w \<longrightarrow>
      exitCode (step (ConnectRejected m) w) = Some (if FAIL_SAFE w then 0 else 1)
    \<and> errors (step (ConnectRejected m) w) = errors w @ [AgentFailed m])
   \<and> (enabled IdleTimeoutFires w \<longrightarrow>
      exitCode (step IdleTimeoutFires w) = Some (if FAIL_SAFE w then 0 else 1)
    \<and> errors (step IdleTimeoutFires w) = errors w @ [IdleTimeout])
   \<and> (enabled ReviewTimeoutFires w \<and> \<not> reviewCompleted w \<longrightarrow>
      exitCode (step ReviewTimeoutFires w) = Some (if FAIL_SAFE w then 0 else 1)
    \<and> errors (step ReviewTimeoutFires w) = errors w @ [ReviewTimeout])
   \<and> (enabled (CriticalErrorSignal m) w \<longrightarrow>
      exitCode (step (CriticalErrorSignal m) w) = Some (if FAIL_SAFE w then 0 else 1)
    \<and> errors (step (CriticalErrorSignal m) w) = errors w @ [CriticalError m])
   \<and> (exitCode w = None \<and> type command = ''get_diff'' \<and> handleGetDiff hs = Inl m \<longrightarrow>
      exitCode (handleCommand (Some onCriticalError) hs command w) =
        Some (if FAIL_SAFE w then 0 else 1)
    \<and> errors (handleCommand (Some onCriticalError) hs command w) =
        errors w @ [CriticalError (criticalMessage ''get_diff'' m)])
   \<and> (exitCode w = None \<longrightarrow>
      exitCode (mainRejected m w) = Some (if FAIL_SAFE w then 0 else 1)
    \<and> errors (mainRejected m w) = errors w @ [FatalError m])
   \<and> (enabled ReviewComplete w \<and> \<not> pendingBitbucketPublish w \<longrightarrow>
      exitCode (step ReviewComplete w) = Some 0 \<and> errors (step ReviewComplete w) = errors w)
   \<and> (enabled ReviewComplete w \<longrightarrow>
      exitCode (run [ReviewComplete, PublishWaitOver] w) = Some 0)"
proof (intro conjI impI)
  assume "enabled ConnectTimeoutFires w"
  then show "exitCode (step ConnectTimeoutFires w) = Some (if FAIL_SAFE w then 0 else 1)"
    and "errors (step ConnectTimeoutFires w) = errors w @ [ConnectionTimeout]"
    using connectTimeoutFires_exits [of w] by (simp_all add: step_def)
next
  assume "enabled (ConnectRejected m) w"
  then show "exitCode (step (ConnectRejected m) w) = Some (if FAIL_SAFE w then 0 else 1)"
    and "errors (step (ConnectRejected m) w) = errors w @ [AgentFailed m]"
    using connectRejected_exits [of w m] by (simp_all add: step_def)
next
  assume "enabled IdleTimeoutFires w"
  then show "exitCode (step IdleTimeoutFires w) = Some (if FAIL_SAFE w then 0 else 1)"
    and "errors (step IdleTimeoutFires w) = errors w @ [IdleTimeout]"
    using idleTimeoutFires_exits [of w] by (simp_all add: step_def)
next
  assume "enabled ReviewTimeoutFires w \<and> \<not> reviewCompleted w"
  then show "exitCode (step ReviewTimeoutFires w) = Some (if FAIL_SAFE w then 0 else 1)"
    and "errors (step ReviewTimeoutFires w) = errors w @ [ReviewTimeout]"
    using reviewTimeoutFires_exits [of w] by (simp_all add: step_def)
next
  assume "enabled (CriticalErrorSignal m) w"
  then show "exitCode (step (CriticalErrorSignal m) w) = Some (if FAIL_SAFE w then 0 else 1)"
    and "errors (step (CriticalErrorSignal m) w) = errors w @ [CriticalError m]"
    using onCriticalError_exits [of w m] by (simp_all add: step_def)
next
  assume h: "exitCode w = None \<and> type command = ''get_diff'' \<and> handleGetDiff hs = Inl m"
  let ?w1 = "onCriticalError (criticalMessage ''get_diff'' m) w"
  have r: "runHandler hs command = Inl m"
    using h by (simp add: runHandler_get_diff)
  have e: "escalate (Some onCriticalError) command (Inl m) w = ?w1"
    using h by (simp add: escalate_def get_diff_critical)
  have x: "exitCode ?w1 \<noteq> None"
    using onCriticalError_exits(1) [of w] h by simp
  have hc: "handleCommand (Some onCriticalError) hs command w = ?w1"
    using r e x by (simp add: handleCommand_def Let_def emitResponse_def)
  show "exitCode (handleCommand (Some onCriticalError) hs command w) =
        Some (if FAIL_SAFE w then 0 else 1)"
    and "errors (handleCommand (Some onCriticalError) hs command w) =
        errors w @ [CriticalError (criticalMessage ''get_diff'' m)]"
    unfolding hc using onCriticalError_exits [of w] h by simp_all
next
  assume "exitCode w = None"
  then show "exitCode (mainRejected m w) = Some (if FAIL_SAFE w then 0 else 1)"
    and "errors (mainRejected m w) = errors w @ [FatalError m]"
    by (simp_all add: mainRejected_def Let_def process_exit_def)
next
  assume h: "enabled ReviewComplete w \<and> \<not> pendingBitbucketPublish w"
  then show "exitCode (step ReviewComplete w) = Some 0"
    and "errors (step ReviewComplete w) = errors w"
    by (simp_all add: step_def onReviewComplete_def Let_def reviewCompleteDone_def
        process_exit_def disconnect_def)
next
  assume "enabled ReviewComplete w"
  then show "exitCode (run [ReviewComplete, PublishWaitOver] w) = Some 0"
    using onReviewComplete_exit [of w] by simp
qed

theorem exit_code_by_path_witness:
  "exitCode (run [ConnectResolved, IdleTimeoutFires] (initial False False :: string world)) = Some 1
   \<and> exitCode (run [ConnectResolved, IdleTimeoutFires] (initial True False :: string world)) = Some 0
   \<and> errors (run [ConnectResolved, IdleTimeoutFires] (initial True False :: string world)) =
       [IdleTimeout]
   \<and> exitCode (run [ConnectResolved, FindingsReceived, ReviewComplete, PublishWaitOver]
        (initial False True :: string world)) = Some 0"
proof -
  let ?w = "run [ConnectResolved] (initial False False) :: string world"
  let ?v = "run [ConnectResolved] (initial True False) :: string world"
  let ?u = "run [ConnectResolved, FindingsReceived] (initial False True) :: string world"
  have w: "enabled IdleTimeoutFires ?w" "FAIL_SAFE ?w = False"
    by (simp_all add: step_def connectResolved_def resetIdleTimeout_def initial_def)
  have v: "enabled IdleTimeoutFires ?v" "FAIL_SAFE ?v = True" "errors ?v = []"
    by (simp_all add: step_def connectResolved_def resetIdleTimeout_def initial_def)
  have u: "enabled ReviewComplete ?u"
    by (simp add: step_def connectResolved_def resetIdleTimeout_def initial_def onFindings_def)
  have rw: "run [ConnectResolved, IdleTimeoutFires] (initial False False :: string world) =
      step IdleTimeoutFires ?w"
    by simp
  have rv: "run [ConnectResolved, IdleTimeoutFires] (initial True False :: string world) =
      step IdleTimeoutFires ?v"
    by simp
  have ru: "run [ConnectResolved, FindingsReceived, ReviewComplete, PublishWaitOver]
        (initial False True :: string world) = run [ReviewComplete, PublishWaitOver] ?u"
    by simp
  note tw = exit_code_by_path [where w = ?w, THEN conjunct2, THEN conjunct2, THEN conjunct1]
  note tv = exit_code_by_path [where w = ?v, THEN conjunct2, THEN conjunct2, THEN conjunct1]
  note tu = exit_code_by_path [where w = ?u, THEN conjunct2, THEN conjunct2, THEN conjunct2,
      THEN conjunct2, THEN conjunct2, THEN conjunct2, THEN conjunct2, THEN conjunct2]
  have 1: "exitCode (step IdleTimeoutFires ?w) = Some 1"
    using tw w by simp
  have 2: "exitCode (step IdleTimeoutFires ?v) = Some 0"
    and 3: "errors (step IdleTimeoutFires ?v) = [IdleTimeout]"
    using tv v by simp_all
  have 4: "exitCode (run [ReviewComplete, PublishWaitOver] ?u) = Some 0"
    using tu u by blast
  show ?thesis
    unfolding rw rv ru using 1 2 3 4 by blast
qed

end
